theory Spec2Isabelle
  imports Main
begin

section \<open>JavaScript values used by the matcher\<close>

text \<open>
  Page text, company names, URLs and file contents are JavaScript strings. They are
  modelled as Isabelle strings: one \<open>char\<close> per code unit, restricted to the code units
  below 256. A call that may throw returns a value of type \<open>'a js\<close>: \<open>Throws msg\<close> is
  the exception with its \<open>message\<close>, \<open>Returns v\<close> the normal result.
\<close>

datatype 'a js = Throws string | Returns 'a

definition code :: "char \<Rightarrow> nat" where
  "code c = of_char c"

text \<open>
  \<open>if (x)\<close> on a value that is \<open>null\<close> or a string: \<open>null\<close> and the empty string
  are falsy.
\<close>

fun truthy :: "string option \<Rightarrow> bool" where
  "truthy None = False"
| "truthy (Some s) = (s \<noteq> [])"

section \<open>Regular expressions\<close>

text \<open>
  The three patterns of \<open>extractISINFromPage\<close> are sequences of single-character
  atoms, each taken once, \<open>*\<close> times (greedy) or exactly \<open>{n}\<close> times, and they end
  with their only capture group. \<open>Lit c\<close> is a literal character, \<open>WhiteSpace\<close> is
  \<open>\s\<close>, \<open>Class rs\<close> is a bracket class \<open>[...]\<close> given by its ranges.
\<close>

datatype atom = Lit char | WhiteSpace | Class "(char \<times> char) list"

datatype piece = One atom | Star atom | Times nat atom

record regexp =
  before :: "piece list"
  group1 :: "piece list"
  ignoreCase :: bool

text \<open>
  \<open>\s\<close> on code units below 256: tab, line feed, vertical tab, form feed, carriage
  return, space and no-break space.
\<close>

definition is_space :: "char \<Rightarrow> bool" where
  "is_space c = (code c \<in> {9, 10, 11, 12, 13, 32, 160})"

fun in_ranges :: "(char \<times> char) list \<Rightarrow> char \<Rightarrow> bool" where
  "in_ranges [] c = False"
| "in_ranges ((lo, hi) # rs) c = ((code lo \<le> code c \<and> code c \<le> code hi) \<or> in_ranges rs c)"

text \<open>
  With the \<open>i\<close> flag two characters match when their canonical forms (the upper-case
  mapping) are equal; a character at or above 128 is never mapped to one below 128. For
  the letters \<open>a\<close> to \<open>z\<close> and \<open>A\<close> to \<open>Z\<close> this identifies each letter with its
  other case, and only those matter for patterns written in ASCII.
\<close>

definition toUpperCase :: "char \<Rightarrow> char" where
  "toUpperCase c = (if 97 \<le> code c \<and> code c \<le> 122 then char_of (code c - 32) else c)"

definition toLowerCase :: "char \<Rightarrow> char" where
  "toLowerCase c = (if 65 \<le> code c \<and> code c \<le> 90 then char_of (code c + 32) else c)"

fun accepts :: "bool \<Rightarrow> atom \<Rightarrow> char \<Rightarrow> bool" where
  "accepts ci (Lit x) c = (if ci then toUpperCase x = toUpperCase c else x = c)"
| "accepts ci WhiteSpace c = is_space c"
| "accepts ci (Class rs) c =
     (in_ranges rs c \<or> (ci \<and> (in_ranges rs (toUpperCase c) \<or> in_ranges rs (toLowerCase c))))"

text \<open>
  \<open>run ci ps s\<close> matches the pieces \<open>ps\<close> at the start of \<open>s\<close> and returns the text
  each piece consumed. A star takes as many characters as it can and gives one back at a
  time when the rest of the pattern fails (backtracking).
\<close>

fun run :: "bool \<Rightarrow> piece list \<Rightarrow> string \<Rightarrow> string list option" where
  "run ci [] s = Some []"
| "run ci (One a # ps) [] = None"
| "run ci (One a # ps) (c # cs) =
     (if accepts ci a c then map_option ((#) [c]) (run ci ps cs) else None)"
| "run ci (Star a # ps) [] = map_option ((#) []) (run ci ps [])"
| "run ci (Star a # ps) (c # cs) =
     (if accepts ci a c then
        (case run ci (Star a # ps) cs of
           Some (m # ms) \<Rightarrow> Some ((c # m) # ms)
         | _ \<Rightarrow> map_option ((#) []) (run ci ps (c # cs)))
      else map_option ((#) []) (run ci ps (c # cs)))"
| "run ci (Times 0 a # ps) s = map_option ((#) []) (run ci ps s)"
| "run ci (Times (Suc n) a # ps) [] = None"
| "run ci (Times (Suc n) a # ps) (c # cs) =
     (if accepts ci a c then
        (case run ci (Times n a # ps) cs of
           Some (m # ms) \<Rightarrow> Some ((c # m) # ms)
         | _ \<Rightarrow> None)
      else None)"

text \<open>The leftmost match: the pattern is tried at position 0, then 1, and so on.\<close>

fun search :: "bool \<Rightarrow> piece list \<Rightarrow> string \<Rightarrow> string list option" where
  "search ci ps [] = run ci ps []"
| "search ci ps (c # cs) =
     (case run ci ps (c # cs) of Some ms \<Rightarrow> Some ms | None \<Rightarrow> search ci ps cs)"

text \<open>
  \<open>exec re s\<close> is \<open>s.match(re)\<close>: \<open>None\<close> for \<open>null\<close>, otherwise element 0 (the
  whole match) and element 1 (the capture group). With the \<open>g\<close> flag \<open>match\<close> returns
  the matched substrings of all matches, and its element 0 is again the leftmost match.
\<close>

definition exec :: "regexp \<Rightarrow> string \<Rightarrow> (string \<times> string) option" where
  "exec re s =
     map_option (\<lambda>ms. (concat ms, concat (drop (length (before re)) ms)))
       (search (ignoreCase re) (before re @ group1 re) s)"

text \<open>\<open>[A-Z]{2}[A-Z0-9]{10}\<close>\<close>

definition isin_code :: "piece list" where
  "isin_code =
     [Times 2 (Class [(CHR ''A'', CHR ''Z'')]),
      Times 10 (Class [(CHR ''A'', CHR ''Z''), (CHR ''0'', CHR ''9'')])]"

text \<open>\<open>/ISIN\s*[:]\s*([A-Z]{2}[A-Z0-9]{10})/i\<close>\<close>

definition labelled_isin :: regexp where
  "labelled_isin =
     \<lparr>before = [One (Lit CHR ''I''), One (Lit CHR ''S''), One (Lit CHR ''I''), One (Lit CHR ''N''),
                Star WhiteSpace, One (Class [(CHR '':'', CHR '':'')]), Star WhiteSpace],
      group1 = isin_code, ignoreCase = True\<rparr>"

text \<open>\<open>/([A-Z]{2}[A-Z0-9]{10})/\<close>, also used with the \<open>g\<close> flag.\<close>

definition bare_isin :: regexp where
  "bare_isin = \<lparr>before = [], group1 = isin_code, ignoreCase = False\<rparr>"

text \<open>Method 1: \<open>isinMatch ? isinMatch[1] : null\<close> on the labelled pattern.\<close>

definition method1 :: "string \<Rightarrow> string option" where
  "method1 text = map_option snd (exec labelled_isin text)"

text \<open>Method 2: \<open>isinMatch ? isinMatch[0] : null\<close> on the bare pattern with \<open>g\<close>.\<close>

definition method2 :: "string \<Rightarrow> string option" where
  "method2 text = map_option fst (exec bare_isin text)"

text \<open>
  Method 3: the loop over the elements selected by \<open>td, div, span, p\<close>, each given by
  its text (\<open>innerText || textContent || ''\<close>); the first element whose text matches
  returns \<open>isinMatch[1]\<close>.
\<close>

fun method3 :: "string list \<Rightarrow> string option" where
  "method3 [] = None"
| "method3 (text # elements) =
     (case exec bare_isin text of Some m \<Rightarrow> Some (snd m) | None \<Rightarrow> method3 elements)"

section \<open>The browser, the disk and the matcher's state\<close>

text \<open>
  A search-result link, as \<open>searchCompany\<close> returns it (\<open>link.href\<close> and the trimmed
  \<open>link.textContent\<close>).
\<close>

record link =
  url :: string
  linkText :: string

text \<open>
  What the pipeline reads from a loaded page, one field per \<open>page.evaluate\<close> (or
  \<open>page.$$eval\<close>) call, each of which may throw: the stock links that the link query
  of \<open>searchCompany\<close> selects, \<open>document.body.innerText\<close> as method 1 and method 2
  read it, and the texts of the elements \<open>td, div, span, p\<close> in document order as
  method 3 reads them.
\<close>

record page =
  stockLinks :: "link list js"
  innerText1 :: "string js"
  innerText2 :: "string js"
  elementTexts :: "string list js"

record company =
  companyName :: string
  isinCode :: string

text \<open>
  The \<open>result\<close> object of \<open>processCompany\<close>. \<open>null\<close> is \<open>None\<close>; the property
  \<open>error\<close> exists only after a failure.
\<close>

record result =
  companyName_r :: string
  expectedISIN :: string
  foundISIN :: "string option"
  matchingURL :: "string option"
  status :: string
  error :: "string option"

text \<open>
  Everything outside the program: \<open>encodeURIComponent\<close> (which throws on a malformed
  string), the outcome of \<open>page.goto\<close> as a function of the URLs navigated to so far
  (the last one is the page asked for), whether \<open>fs.writeFileSync\<close> fails for a file,
  whether closing and recreating the browser context fails, and the text that
  \<open>JSON.stringify\<close> produces for the structured dump.
\<close>

record world =
  encodeURIComponent :: "string \<Rightarrow> string js"
  goto :: "string list \<Rightarrow> page js"
  writeError :: "string \<Rightarrow> string option"
  refreshError :: "string list \<Rightarrow> string option"
  stringify :: "result list \<Rightarrow> string"

datatype event = Goto string | Evaluate nat

text \<open>
  The state of a matcher object and of its surroundings: \<open>this.results\<close>, the browser
  calls made so far (\<open>Evaluate 0\<close> is the link query of the search page, \<open>Evaluate k\<close>
  is method \<open>k\<close>), and the files on disk. The waits between requests are not modelled.
\<close>

record state =
  results :: "result list"
  trace :: "event list"
  files :: "string \<rightharpoonup> string"

fun visited :: "event list \<Rightarrow> string list" where
  "visited [] = []"
| "visited (Goto u # es) = u # visited es"
| "visited (Evaluate k # es) = visited es"

definition emit :: "event \<Rightarrow> state \<Rightarrow> state" where
  "emit e st = st\<lparr>trace := trace st @ [e]\<rparr>"

text \<open>\<open>await this.page.goto(url, ...)\<close>\<close>

definition page_goto :: "world \<Rightarrow> string \<Rightarrow> state \<Rightarrow> page js \<times> state" where
  "page_goto w u st = (let st1 = emit (Goto u) st in (goto w (visited (trace st1)), st1))"

section \<open>Candidate Locator: \<open>searchCompany\<close>\<close>

text \<open>
  The search URL is built before the \<open>try\<close>, so a failure of \<open>encodeURIComponent\<close>
  leaves the function; a failure of the navigation or of the link query is caught and
  gives the empty array.
\<close>

definition searchCompany :: "world \<Rightarrow> string \<Rightarrow> state \<Rightarrow> link list js \<times> state" where
  "searchCompany w name st =
     (case encodeURIComponent w name of
        Throws e \<Rightarrow> (Throws e, st)
      | Returns q \<Rightarrow>
          (case page_goto w (''https://www.gurufocus.com/search?s='' @ q) st of
             (Throws e, st1) \<Rightarrow> (Returns [], st1)
           | (Returns p, st1) \<Rightarrow>
               (case stockLinks p of
                  Throws e \<Rightarrow> (Returns [], emit (Evaluate 0) st1)
                | Returns ls \<Rightarrow> (Returns ls, emit (Evaluate 0) st1))))"

section \<open>Text Extractor: \<open>extractISINFromPage\<close>\<close>

text \<open>
  One method: \<open>try { isin = await this.page.evaluate(...) } catch (e) { ... }\<close>. When
  the call throws, \<open>isin\<close> keeps its value.
\<close>

definition attempt :: "nat \<Rightarrow> 'a js \<Rightarrow> ('a \<Rightarrow> string option) \<Rightarrow> string option \<times> state
    \<Rightarrow> string option \<times> state" where
  "attempt k observed method cur =
     (case observed of
        Throws e \<Rightarrow> (fst cur, emit (Evaluate k) (snd cur))
      | Returns x \<Rightarrow> (method x, emit (Evaluate k) (snd cur)))"

definition extractISINFromPage :: "world \<Rightarrow> string \<Rightarrow> state \<Rightarrow> string option \<times> state" where
  "extractISINFromPage w u st =
     (case page_goto w u st of
        (Throws e, st1) \<Rightarrow> (None, st1)
      | (Returns p, st1) \<Rightarrow>
          (let r1 = attempt 1 (innerText1 p) method1 (None, st1);
               r2 = (if \<not> truthy (fst r1) then attempt 2 (innerText2 p) method2 r1 else r1);
               r3 = (if \<not> truthy (fst r2) then attempt 3 (elementTexts p) method3 r2 else r2)
           in r3))"

section \<open>Match Evaluator: \<open>processCompany\<close>\<close>

text \<open>
  The loop \<open>for (const link of stockLinks)\<close>. The flag of the result tells whether the
  loop left the function through \<open>return result\<close>.
\<close>

fun checkLinks :: "world \<Rightarrow> company \<Rightarrow> link list \<Rightarrow> result \<Rightarrow> state
    \<Rightarrow> (bool \<times> result) \<times> state" where
  "checkLinks w c [] r st = ((False, r), st)"
| "checkLinks w c (l # ls) r st =
     (case extractISINFromPage w (url l) st of
        (found, st1) \<Rightarrow>
          (if truthy found then
             (if found = Some (isinCode c)
              then ((True, r\<lparr>foundISIN := found, matchingURL := Some (url l),
                             status := ''matched''\<rparr>), st1)
              else checkLinks w c ls (r\<lparr>foundISIN := found\<rparr>) st1)
           else checkLinks w c ls r st1))"

definition processCompany :: "world \<Rightarrow> company \<Rightarrow> state \<Rightarrow> result \<times> state" where
  "processCompany w c st =
     (let r = \<lparr>companyName_r = companyName c, expectedISIN = isinCode c, foundISIN = None,
                matchingURL = None, status = ''not_found'', error = None\<rparr>
      in case searchCompany w (companyName c) st of
           (Throws e, st1) \<Rightarrow> (r\<lparr>status := ''error'', error := Some e\<rparr>, st1)
         | (Returns ls, st1) \<Rightarrow>
             (if length ls = 0 then (r\<lparr>status := ''no_results''\<rparr>, st1)
              else (case checkLinks w c ls r st1 of
                      ((True, r1), st2) \<Rightarrow> (r1, st2)
                    | ((False, r1), st2) \<Rightarrow> (r1\<lparr>status := ''no_match''\<rparr>, st2))))"

text \<open>
  What the extractor returns on each candidate in turn, when every candidate is
  visited: the extraction results that the loop of \<open>processCompany\<close> observes, up to
  the point where it stops.
\<close>

fun observations :: "world \<Rightarrow> link list \<Rightarrow> state \<Rightarrow> string option list" where
  "observations w [] st = []"
| "observations w (l # ls) st =
     (case extractISINFromPage w (url l) st of (found, st1) \<Rightarrow> found # observations w ls st1)"

section \<open>Tabular dump of the matches\<close>

text \<open>\<open>Array.prototype.join\<close> and \<open>String.prototype.split\<close> with a one-character separator.\<close>

fun join :: "string \<Rightarrow> string list \<Rightarrow> string" where
  "join sep [] = []"
| "join sep [x] = x"
| "join sep (x # y # ys) = x @ sep @ join sep (y # ys)"

fun split :: "char \<Rightarrow> string \<Rightarrow> string list" where
  "split sep [] = [[]]"
| "split sep (c # cs) =
     (if c = sep then [] # split sep cs
      else (case split sep cs of [] \<Rightarrow> [[c]] | x # xs \<Rightarrow> (c # x) # xs))"

definition newline :: char where
  "newline = CHR 0x0A"

text \<open>
  The template literal \<open>`${r.companyName},${r.expectedISIN},${r.matchingURL}`\<close>; a
  \<open>null\<close> prints as \<open>null\<close>.
\<close>

definition csvRow :: "result \<Rightarrow> string" where
  "csvRow r =
     companyName_r r @ '','' @ expectedISIN r @ '','' @
     (case matchingURL r of None \<Rightarrow> ''null'' | Some u \<Rightarrow> u)"

definition csvResults :: "result list \<Rightarrow> string" where
  "csvResults rs = join [newline] (map csvRow (filter (\<lambda>r. status r = ''matched'') rs))"

definition csvHeader :: string where
  "csvHeader = ''Company Name,ISIN Code,GuruFocus URL'' @ [newline]"

definition writeFileSync :: "world \<Rightarrow> string \<Rightarrow> string \<Rightarrow> state \<Rightarrow> unit js \<times> state" where
  "writeFileSync w name content st =
     (case writeError w name of
        Some e \<Rightarrow> (Throws e, st)
      | None \<Rightarrow> (Returns (), st\<lparr>files := (files st)(name \<mapsto> content)\<rparr>))"

text \<open>\<open>saveMatchesCSV\<close> of the variant with periodic saving.\<close>

definition saveMatchesCSV :: "world \<Rightarrow> state \<Rightarrow> bool \<times> state" where
  "saveMatchesCSV w st =
     (if csvResults (results st) \<noteq> [] then
        (case writeFileSync w ''gurufocus_matches.csv'' (csvHeader @ csvResults (results st)) st of
           (Throws e, st1) \<Rightarrow> (False, st1)
         | (Returns u, st1) \<Rightarrow> (True, st1))
      else (False, st))"

text \<open>
  \<open>saveResults\<close> of \<open>gurufocus_isin_matcher.js\<close>: the structured dump, then the
  matches, both inside one \<open>try\<close>.
\<close>

definition saveResults :: "world \<Rightarrow> string \<Rightarrow> state \<Rightarrow> state" where
  "saveResults w filename st =
     (case writeFileSync w filename (stringify w (results st)) st of
        (Throws e, st1) \<Rightarrow> st1
      | (Returns u, st1) \<Rightarrow>
          (if csvResults (results st1) \<noteq> [] then
             snd (writeFileSync w ''gurufocus_matches.csv'' (csvHeader @ csvResults (results st1)) st1)
           else st1))"

text \<open>\<open>saveResults\<close> of the variant with periodic saving, which calls \<open>saveMatchesCSV\<close>.\<close>

definition saveResults_periodic :: "world \<Rightarrow> string \<Rightarrow> state \<Rightarrow> state" where
  "saveResults_periodic w filename st =
     (case writeFileSync w filename (stringify w (results st)) st of
        (Throws e, st1) \<Rightarrow> st1
      | (Returns u, st1) \<Rightarrow> snd (saveMatchesCSV w st1))"

section \<open>Batch Driver: \<open>processCompanies\<close>\<close>

text \<open>
  The value of \<open>maxCompanies\<close>: \<open>null\<close>, or the number that \<open>parseInt\<close> returned,
  which is \<open>NaN\<close>, an integer that is a double, or an infinity.
\<close>

datatype count = Null | NaN | Number int | PosInfinity | NegInfinity

fun truthy_count :: "count \<Rightarrow> bool" where
  "truthy_count (Number n) = (n \<noteq> 0)"
| "truthy_count Null = False"
| "truthy_count NaN = False"
| "truthy_count PosInfinity = True"
| "truthy_count NegInfinity = True"

text \<open>
  \<open>companies.slice(0, end)\<close>: a negative \<open>end\<close> counts from the end of the array,
  and \<open>null\<close> and \<open>NaN\<close> count as 0.
\<close>

fun slice0 :: "count \<Rightarrow> 'a list \<Rightarrow> 'a list" where
  "slice0 (Number e) xs = take (if e < 0 then nat (int (length xs) + e) else nat e) xs"
| "slice0 Null xs = []"
| "slice0 NaN xs = []"
| "slice0 PosInfinity xs = xs"
| "slice0 NegInfinity xs = []"

definition companiesToProcess :: "company list \<Rightarrow> count \<Rightarrow> company list" where
  "companiesToProcess companies maxCompanies =
     (if truthy_count maxCompanies then slice0 maxCompanies companies else companies)"

definition push :: "result \<Rightarrow> state \<Rightarrow> state" where
  "push r st = st\<lparr>results := results st @ [r]\<rparr>"

text \<open>The loop of \<open>processCompanies\<close> in \<open>gurufocus_isin_matcher.js\<close>.\<close>

function companiesLoop :: "world \<Rightarrow> company list \<Rightarrow> nat \<Rightarrow> state \<Rightarrow> state" where
  "companiesLoop w cs i st =
     (if i < length cs then
        (case processCompany w (cs ! i) st of
           (r, st1) \<Rightarrow> companiesLoop w cs (i + 1) (push r st1))
      else st)"
  by pat_completeness auto
termination
  by (relation "measure (\<lambda>(w, cs, i, st). length cs - i)") auto

definition processCompanies :: "world \<Rightarrow> company list \<Rightarrow> count \<Rightarrow> state \<Rightarrow> state" where
  "processCompanies w companies maxCompanies st =
     companiesLoop w (companiesToProcess companies maxCompanies) 0 st"

text \<open>
  The variant with periodic saving. \<open>refreshBrowserContext\<close> is called outside any
  \<open>try\<close>, so its failure ends \<open>processCompanies\<close>.
\<close>

definition refreshBrowserContext :: "world \<Rightarrow> state \<Rightarrow> unit js" where
  "refreshBrowserContext w st =
     (case refreshError w (visited (trace st)) of Some e \<Rightarrow> Throws e | None \<Rightarrow> Returns ())"

text \<open>One pass through the loop body, for index \<open>i\<close>.\<close>

definition iteration :: "world \<Rightarrow> company list \<Rightarrow> nat \<Rightarrow> state \<Rightarrow> unit js \<times> state" where
  "iteration w cs i st =
     (case (if i > 0 then refreshBrowserContext w st else Returns ()) of
        Throws e \<Rightarrow> (Throws e, st)
      | Returns u \<Rightarrow>
          (case processCompany w (cs ! i) st of
             (r, st1) \<Rightarrow>
               (Returns (),
                if (i + 1) mod 10 = 0 then snd (saveMatchesCSV w (push r st1)) else push r st1)))"

function companiesLoop_periodic :: "world \<Rightarrow> company list \<Rightarrow> nat \<Rightarrow> state \<Rightarrow> unit js \<times> state" where
  "companiesLoop_periodic w cs i st =
     (if i < length cs then
        (case iteration w cs i st of
           (Throws e, st1) \<Rightarrow> (Throws e, st1)
         | (Returns u, st1) \<Rightarrow> companiesLoop_periodic w cs (i + 1) st1)
      else (Returns (), st))"
  by pat_completeness auto
termination
  by (relation "measure (\<lambda>(w, cs, i, st). length cs - i)") auto

definition processCompanies_periodic :: "world \<Rightarrow> company list \<Rightarrow> count \<Rightarrow> state \<Rightarrow> unit js \<times> state" where
  "processCompanies_periodic w companies maxCompanies st =
     companiesLoop_periodic w (companiesToProcess companies maxCompanies) 0 st"

text \<open>
  The state of the periodic variant after its first \<open>n\<close> records have completed, if
  they all do.
\<close>

fun completed :: "world \<Rightarrow> company list \<Rightarrow> nat \<Rightarrow> state \<Rightarrow> state option" where
  "completed w cs 0 st = Some st"
| "completed w cs (Suc n) st =
     (case completed w cs n st of
        None \<Rightarrow> None
      | Some st1 \<Rightarrow>
          (case iteration w cs n st1 of
             (Throws e, st2) \<Rightarrow> None
           | (Returns u, st2) \<Rightarrow> Some st2))"

section \<open>Command line\<close>

definition digitValue :: "char \<Rightarrow> nat option" where
  "digitValue c =
     (if 48 \<le> code c \<and> code c \<le> 57 then Some (code c - 48)
      else if 97 \<le> code c \<and> code c \<le> 122 then Some (code c - 87)
      else if 65 \<le> code c \<and> code c \<le> 90 then Some (code c - 55)
      else None)"

fun digits :: "nat \<Rightarrow> string \<Rightarrow> nat list" where
  "digits radix [] = []"
| "digits radix (c # cs) =
     (case digitValue c of
        None \<Rightarrow> []
      | Some d \<Rightarrow> (if d < radix then d # digits radix cs else []))"

text \<open>
  Powers of two, the number of binary digits of a non-negative integer, and the double
  nearest to it: below \<open>2 ^ 53\<close> the integer itself, above it the integer rounded to
  53 significant binary digits (a tie goes to the even significand), and \<open>None\<close> for
  infinity when the rounded value reaches \<open>2 ^ 1024\<close>.
\<close>

fun pow2 :: "nat \<Rightarrow> int" where
  "pow2 0 = 1"
| "pow2 (Suc e) = 2 * pow2 e"

function bitlen :: "int \<Rightarrow> nat" where
  "bitlen n = (if n \<le> 0 then 0 else Suc (bitlen (n div 2)))"
  by pat_completeness auto
termination
  by (relation "measure nat") auto

definition toDouble :: "int \<Rightarrow> int option" where
  "toDouble n =
     (if n < pow2 53 then Some n
      else (let e = bitlen n - 53;
                q = n div pow2 e;
                r = n mod pow2 e;
                half = pow2 (e - 1);
                m = (if half < r \<or> (r = half \<and> odd q) then q + 1 else q)
            in if pow2 1024 \<le> m * pow2 e then None else Some (m * pow2 e)))"

text \<open>
  \<open>parseInt(s)\<close> with no radix: leading white space, a sign, a \<open>0x\<close> prefix, then
  the longest run of digits; \<open>NaN\<close> when there is no digit, otherwise the double
  nearest to the integer that the digits denote.
\<close>

definition parseInt :: "string \<Rightarrow> count" where
  "parseInt s =
     (let t = dropWhile is_space s;
          negative = (take 1 t = ''-'');
          t1 = (if take 1 t = ''-'' \<or> take 1 t = ''+'' then drop 1 t else t);
          hex = (take 2 t1 = ''0x'' \<or> take 2 t1 = ''0X'');
          radix = (if hex then 16 else 10);
          ds = digits radix (if hex then drop 2 t1 else t1);
          n = foldl (\<lambda>a d. a * int radix + int d) 0 ds
      in if ds = [] then NaN
         else (case toDouble n of
                 None \<Rightarrow> (if negative then NegInfinity else PosInfinity)
               | Some d \<Rightarrow> Number (if negative then - d else d)))"

definition endsWith :: "string \<Rightarrow> string \<Rightarrow> bool" where
  "endsWith s t = (length t \<le> length s \<and> drop (length s - length t) s = t)"

text \<open>\<open>process.argv[i]\<close>, \<open>undefined\<close> past the end.\<close>

definition argv_at :: "string list \<Rightarrow> nat \<Rightarrow> string option" where
  "argv_at argv i = (if i < length argv then Some (argv ! i) else None)"

definition usage :: "string list" where
  "usage =
     [''GuruFocus ISIN Matcher'',
      ''======================'',
      ''Usage: node gurufocus_isin_matcher.js <number_of_companies> [--visible]'',
      [],
      ''Examples:'',
      ''  node gurufocus_isin_matcher.js 5'',
      ''  node gurufocus_isin_matcher.js 10 --visible'',
      ''  node gurufocus_isin_matcher.js 0  # Process all companies'',
      [],
      ''Options:'',
      ''  --visible    Show browser window (default: headless)'']"

text \<open>
  What the command-line block does: nothing when the module is not the script that was
  started, the printed lines and \<open>process.exit(code)\<close>, or a matcher created with the
  \<open>headless\<close> option and started with \<open>run(maxCompanies)\<close>. The block is the same
  text in both variants of the script.
\<close>

datatype command = NotStarted | Exit "string list" nat | Run count bool

definition cli :: "string list \<Rightarrow> command" where
  "cli argv =
     (if truthy (argv_at argv 1) \<and> endsWith (the (argv_at argv 1)) ''gurufocus_isin_matcher.js'' then
        (let maxCompanies = (if truthy (argv_at argv 2) then parseInt (the (argv_at argv 2)) else Null);
             headless = (''--visible'' \<notin> set argv)
         in if \<not> truthy_count maxCompanies then Exit usage 1
            else Run (if maxCompanies = Number 0 then Null else maxCompanies) headless)
      else NotStarted)"

section \<open>Notions used in the statements\<close>

text \<open>
  \<open>fits ci p m\<close>: the text \<open>m\<close> is what the piece \<open>p\<close> may consume.
\<close>

fun fits :: "bool \<Rightarrow> piece \<Rightarrow> string \<Rightarrow> bool" where
  "fits ci (One a) m = (length m = 1 \<and> list_all (accepts ci a) m)"
| "fits ci (Star a) m = list_all (accepts ci a) m"
| "fits ci (Times n a) m = (length m = n \<and> list_all (accepts ci a) m)"

definition isUpper :: "char \<Rightarrow> bool" where
  "isUpper c = (65 \<le> code c \<and> code c \<le> 90)"

definition isLower :: "char \<Rightarrow> bool" where
  "isLower c = (97 \<le> code c \<and> code c \<le> 122)"

definition isDigit :: "char \<Rightarrow> bool" where
  "isDigit c = (48 \<le> code c \<and> code c \<le> 57)"

text \<open>
  A well-formed identifier: two upper-case letters followed by ten upper-case letters
  or digits. The second notion allows either case for each letter.
\<close>

definition well_formed :: "string \<Rightarrow> bool" where
  "well_formed c =
     (length c = 12 \<and> list_all isUpper (take 2 c) \<and>
      list_all (\<lambda>x. isUpper x \<or> isDigit x) (drop 2 c))"

definition well_formed_any_case :: "string \<Rightarrow> bool" where
  "well_formed_any_case c =
     (length c = 12 \<and> list_all (\<lambda>x. isUpper x \<or> isLower x) (take 2 c) \<and>
      list_all (\<lambda>x. isUpper x \<or> isLower x \<or> isDigit x) (drop 2 c))"

text \<open>The last non-empty extraction of a list of extraction results, if there is one.\<close>

definition lastTruthy :: "string option list \<Rightarrow> string option" where
  "lastTruthy obs = (case rev (filter truthy obs) of [] \<Rightarrow> None | x # xs \<Rightarrow> x)"

text \<open>
  The extraction results that the loop of \<open>processCompany\<close> does observe: it stops
  after the first one that equals the expected identifier.
\<close>

fun observed :: "world \<Rightarrow> company \<Rightarrow> link list \<Rightarrow> state \<Rightarrow> string option list" where
  "observed w c [] st = []"
| "observed w c (l # ls) st =
     (case extractISINFromPage w (url l) st of
        (found, st1) \<Rightarrow>
          found # (if truthy found \<and> found = Some (isinCode c) then [] else observed w c ls st1))"




definition calls :: "state \<Rightarrow> state \<Rightarrow> event list" where
  "calls st st' = drop (length (trace st)) (trace st')"

text \<open>
  The state of \<open>processCompanies\<close> in \<open>gurufocus_isin_matcher.js\<close> after its first
  \<open>n\<close> records, and the four terminal values of \<open>status\<close>.
\<close>

fun processed :: "world \<Rightarrow> company list \<Rightarrow> nat \<Rightarrow> state \<Rightarrow> state" where
  "processed w cs 0 st = st"
| "processed w cs (Suc n) st =
     (case processCompany w (cs ! n) (processed w cs n st) of (r, st1) \<Rightarrow> push r st1)"

definition terminal :: "string \<Rightarrow> bool" where
  "terminal s = (s = ''matched'' \<or> s = ''no_match'' \<or> s = ''no_results'' \<or> s = ''error'')"

section \<open>Example runs\<close>

text \<open>
  A small site for the concrete runs below. The search for \<open>Acme\<close> lists four stock
  pages: the first names another identifier, the second cannot be loaded, the third
  names \<open>US0000011111\<close>, the fourth has no identifier. A fifth stock page names a bare
  code before a labelled one. The search for \<open>Gamma\<close> loads and lists nothing;
  every other navigation, the search for \<open>Beta\<close> among them, times out. The name
  \<open>malformed\<close> stands for a name on which \<open>encodeURIComponent\<close> throws.
\<close>

definition text_page :: "string \<Rightarrow> page" where
  "text_page t =
     \<lparr>stockLinks = Returns [], innerText1 = Returns t, innerText2 = Returns t,
      elementTexts = Returns [t]\<rparr>"

definition links_page :: "string list \<Rightarrow> page" where
  "links_page us =
     \<lparr>stockLinks = Returns (map (\<lambda>u. \<lparr>url = u, linkText = []\<rparr>) us), innerText1 = Returns [],
      innerText2 = Returns [], elementTexts = Returns []\<rparr>"

definition site :: "string \<Rightarrow> page js" where
  "site u =
     (if u = ''https://www.gurufocus.com/search?s=Acme'' then
        Returns (links_page [''https://www.gurufocus.com/stock/AAA/summary'',
                             ''https://www.gurufocus.com/stock/BBB/summary'',
                             ''https://www.gurufocus.com/stock/ACME/summary'',
                             ''https://www.gurufocus.com/stock/CCC/summary''])
      else if u = ''https://www.gurufocus.com/search?s=Gamma'' then Returns (links_page [])
      else if u = ''https://www.gurufocus.com/stock/AAA/summary'' then
        Returns (text_page ''Other Corp ISIN: GB0000022222'')
      else if u = ''https://www.gurufocus.com/stock/ACME/summary'' then
        Returns (text_page ''Acme Corp isin : US0000011111 NYSE'')
      else if u = ''https://www.gurufocus.com/stock/CCC/summary'' then
        Returns (text_page ''no identifier here'')
      else if u = ''https://www.gurufocus.com/stock/BOTH/summary'' then
        Returns (text_page ''Ticker GB0000022222 ISIN: US0000011111'')
      else Throws ''Navigation timeout of 30000 ms exceeded'')"

definition web :: world where
  "web =
     \<lparr>encodeURIComponent = (\<lambda>n. if n = ''malformed'' then Throws ''URI malformed'' else Returns n),
      goto = (\<lambda>history. site (last history)),
      writeError = (\<lambda>name. None),
      refreshError = (\<lambda>history. None),
      stringify = (\<lambda>rs. ''{}'')\<rparr>"

definition fresh :: state where
  "fresh = \<lparr>results = [], trace = [], files = Map.empty\<rparr>"

definition acme :: company where
  "acme = \<lparr>companyName = ''Acme'', isinCode = ''US0000011111''\<rparr>"

text \<open>
  A second site: every search lists one stock page, and that page names the identifier
  in lower case after the label and in upper case further on.
\<close>

definition lower_case_web :: world where
  "lower_case_web =
     web\<lparr>goto := (\<lambda>history.
            if last history = ''https://www.gurufocus.com/stock/LOW/summary''
            then Returns (text_page ''Acme Corp isin: us0000011111 US0000011111'')
            else Returns (links_page [''https://www.gurufocus.com/stock/LOW/summary'']))\<rparr>"

definition gamma :: company where
  "gamma = \<lparr>companyName = ''Gamma'', isinCode = ''GB0000022222''\<rparr>"

definition beta :: company where
  "beta = \<lparr>companyName = ''Beta'', isinCode = ''GB0000022222''\<rparr>"

definition acme_wrong :: company where
  "acme_wrong = \<lparr>companyName = ''Acme'', isinCode = ''US9999999999''\<rparr>"

definition malformed :: company where
  "malformed = \<lparr>companyName = ''malformed'', isinCode = ''FR0000033333''\<rparr>"

definition batch :: "company list" where
  "batch = [acme, gamma, malformed, acme_wrong, beta]"

text \<open>
  States for the runs of the dump: one matched record whose URL contains a comma beside
  a record without a match, a result set without any match, and a disk that still holds
  the matches file of an earlier run.
\<close>

definition comma_results :: "result list" where
  "comma_results =
     [\<lparr>companyName_r = ''Acme'', expectedISIN = ''US0000011111'',
       foundISIN = Some ''US0000011111'',
       matchingURL = Some ''https://www.gurufocus.com/stock/A,B/summary'',
       status = ''matched'', error = None\<rparr>,
      \<lparr>companyName_r = ''Gamma'', expectedISIN = ''GB0000022222'', foundISIN = None,
       matchingURL = None, status = ''no_results'', error = None\<rparr>]"

definition unmatched_results :: "result list" where
  "unmatched_results =
     [\<lparr>companyName_r = ''Gamma'', expectedISIN = ''GB0000022222'', foundISIN = None,
       matchingURL = None, status = ''no_results'', error = None\<rparr>]"

definition stale :: state where
  "stale =
     \<lparr>results = [], trace = [],
      files = [''gurufocus_matches.csv'' \<mapsto> ''Company Name,ISIN Code,GuruFocus URL'' @ [newline] @ ''Old,US0000000000,u'']\<rparr>"

definition ten_unmatched :: "company list" where
  "ten_unmatched = replicate 10 gamma"

definition ten_with_match :: "company list" where
  "ten_with_match = replicate 9 gamma @ [acme]"

section \<open>Shape of a match\<close>

lemma run_shape:
  "run ci ps s = Some ms \<Longrightarrow> list_all2 (fits ci) ps ms \<and> (\<exists>r. s = concat ms @ r)"
proof (induction ci ps s arbitrary: ms rule: run.induct)
  case (1 ci s)
  then show ?case by simp
next
  case (2 ci a ps)
  then show ?case by simp
next
  case (3 ci a ps c cs)
  then show ?case by (auto split: if_splits)
next
  case (4 ci a ps)
  then show ?case by auto
next
  case (5 ci a ps c cs)
  then show ?case
    by (auto split: if_splits option.splits list.splits)
next
  case (6 ci a ps s)
  then show ?case by auto
next
  case (7 ci n a ps)
  then show ?case by simp
next
  case (8 ci n a ps c cs)
  then show ?case
    by (auto split: if_splits option.splits list.splits)
qed

lemma search_shape:
  "search ci ps s = Some ms \<Longrightarrow> list_all2 (fits ci) ps ms"
  by (induction s) (auto split: option.splits dest: run_shape)

lemma isin_code_length:
  assumes "list_all2 (fits ci) (pre @ isin_code) ms"
  shows "length (concat (drop (length pre) ms)) = 12"
proof -
  from assms obtain ms1 ms2 where ms: "ms = ms1 @ ms2" "length ms1 = length pre"
    "list_all2 (fits ci) isin_code ms2"
    by (auto simp: list_all2_append1)
  from ms(3) obtain a b where "ms2 = [a, b]" "length a = 2" "length b = 10"
    by (auto simp: isin_code_def list_all2_Cons1)
  with ms show ?thesis by simp
qed

lemma exec_length:
  assumes "exec re s = Some m" "group1 re = isin_code"
  shows "length (snd m) = 12"
  using assms isin_code_length[of "ignoreCase re" "before re"]
  by (auto simp: exec_def dest!: search_shape)

lemma method1_length: "method1 t = Some x \<Longrightarrow> length x = 12"
  using exec_length[of labelled_isin t] by (auto simp: method1_def labelled_isin_def)

lemma method2_length: "method2 t = Some x \<Longrightarrow> length x = 12"
  using exec_length[of bare_isin t] by (auto simp: method2_def bare_isin_def exec_def)

lemma method3_length: "method3 ts = Some x \<Longrightarrow> length x = 12"
  using exec_length[of bare_isin]
  by (induction ts) (auto simp: bare_isin_def split: option.splits)

section \<open>The labelled pattern\<close>

lemma code_simps:
  "code CHR ''A'' = 65" "code CHR ''Z'' = 90" "code CHR ''0'' = 48" "code CHR ''9'' = 57"
  "code CHR '':'' = 58"
  by (simp_all add: code_def)

lemma code_char_of: "n < 256 \<Longrightarrow> code (char_of n) = n"
  by (simp add: code_def)

lemma accepts_letter:
  "accepts True (Class [(CHR ''A'', CHR ''Z'')]) = (\<lambda>x. isUpper x \<or> isLower x)"
  by (rule ext)
    (auto simp: isUpper_def isLower_def toUpperCase_def toLowerCase_def code_simps code_char_of)

lemma accepts_alnum:
  "accepts True (Class [(CHR ''A'', CHR ''Z''), (CHR ''0'', CHR ''9'')])
     = (\<lambda>x. isUpper x \<or> isLower x \<or> isDigit x)"
  by (rule ext)
    (auto simp: isUpper_def isLower_def isDigit_def toUpperCase_def toLowerCase_def
      code_simps code_char_of)

lemma accepts_upper:
  "accepts False (Class [(CHR ''A'', CHR ''Z'')]) = isUpper"
  by (rule ext) (auto simp: isUpper_def code_simps)

lemma accepts_upper_digit:
  "accepts False (Class [(CHR ''A'', CHR ''Z''), (CHR ''0'', CHR ''9'')])
     = (\<lambda>x. isUpper x \<or> isDigit x)"
  by (rule ext) (auto simp: isUpper_def isDigit_def code_simps)

lemma run_times:
  "length xs = n \<Longrightarrow> list_all (accepts ci a) xs \<Longrightarrow> run ci ps r = Some ms
     \<Longrightarrow> run ci (Times n a # ps) (xs @ r) = Some (xs # ms)"
  by (induction xs arbitrary: n) auto

lemma run_star_stop:
  "r = [] \<or> \<not> accepts ci a (hd r) \<Longrightarrow> run ci (Star a # ps) r = map_option ((#) []) (run ci ps r)"
  by (cases r) auto

lemma run_star:
  "list_all (accepts ci a) xs \<Longrightarrow> r = [] \<or> \<not> accepts ci a (hd r) \<Longrightarrow> run ci ps r = Some ms
     \<Longrightarrow> run ci (Star a # ps) (xs @ r) = Some (xs # ms)"
  by (induction xs) (auto simp: run_star_stop)

lemma search_hit: "run ci ps s = Some ms \<Longrightarrow> search ci ps s = Some ms"
  by (cases s) auto

lemma run_isin_code:
  assumes "length c = 12" "list_all (accepts ci (Class [(CHR ''A'', CHR ''Z'')])) (take 2 c)"
    "list_all (accepts ci (Class [(CHR ''A'', CHR ''Z''), (CHR ''0'', CHR ''9'')])) (drop 2 c)"
  shows "run ci isin_code (c @ r) = Some [take 2 c, drop 2 c]"
proof -
  have "run ci [Times 10 (Class [(CHR ''A'', CHR ''Z''), (CHR ''0'', CHR ''9'')])] (drop 2 c @ r)
          = Some [drop 2 c]"
    using assms by (intro run_times) auto
  then have "run ci isin_code (take 2 c @ (drop 2 c @ r)) = Some [take 2 c, drop 2 c]"
    unfolding isin_code_def using assms by (intro run_times) auto
  then show ?thesis by (metis append_assoc append_take_drop_id)
qed

lemma not_space_colon: "\<not> is_space CHR '':''"
  by (simp add: is_space_def code_def)

lemma not_space_letter: "isUpper x \<or> isLower x \<Longrightarrow> \<not> is_space x"
  by (auto simp: is_space_def isUpper_def isLower_def)

lemma label_chars:
  assumes "map toUpperCase lbl = ''ISIN''"
  obtains a b c d where "lbl = [a, b, c, d]" "toUpperCase a = CHR ''I''" "toUpperCase b = CHR ''S''"
    "toUpperCase c = CHR ''I''" "toUpperCase d = CHR ''N''"
  using assms by (auto simp: map_eq_Cons_conv)

lemma toUpperCase_label:
  "toUpperCase CHR ''I'' = CHR ''I''" "toUpperCase CHR ''S'' = CHR ''S''"
  "toUpperCase CHR ''N'' = CHR ''N''"
  by (simp_all add: toUpperCase_def code_def)

lemma run_labelled:
  assumes wf: "well_formed_any_case c" and lbl: "map toUpperCase lbl = ''ISIN''"
    and ws: "list_all is_space ws1" "list_all is_space ws2"
  shows "run True (before labelled_isin @ group1 labelled_isin) (lbl @ ws1 @ '':'' @ ws2 @ c @ r)
           = Some (map (\<lambda>x. [x]) lbl @ [ws1, '':'', ws2, take 2 c, drop 2 c])"
proof -
  from wf have len: "length c = 12" and c1: "list_all (\<lambda>x. isUpper x \<or> isLower x) (take 2 c)"
    and c2: "list_all (\<lambda>x. isUpper x \<or> isLower x \<or> isDigit x) (drop 2 c)"
    by (simp_all add: well_formed_any_case_def)
  from len obtain x xs where c: "c = x # xs" by (cases c) auto
  with c1 have x: "\<not> is_space x" by (auto simp: is_space_def isUpper_def isLower_def)
  have code: "run True isin_code (c @ r) = Some [take 2 c, drop 2 c]"
    using len c1 c2 by (intro run_isin_code) (simp_all add: accepts_letter accepts_alnum)
  have s2: "run True (Star WhiteSpace # isin_code) (ws2 @ (c @ r)) = Some (ws2 # [take 2 c, drop 2 c])"
    using ws(2) x code by (intro run_star) (auto simp: c list_all_iff)
  have colon: "run True (One (Class [(CHR '':'', CHR '':'')]) # Star WhiteSpace # isin_code)
                ('':'' @ ws2 @ c @ r) = Some ['':'', ws2, take 2 c, drop 2 c]"
    using s2 by simp
  have s1: "run True (Star WhiteSpace # One (Class [(CHR '':'', CHR '':'')]) # Star WhiteSpace # isin_code)
                (ws1 @ ('':'' @ ws2 @ c @ r)) = Some (ws1 # ['':'', ws2, take 2 c, drop 2 c])"
    using ws(1) colon by (intro run_star) (auto simp: list_all_iff not_space_colon)
  from lbl obtain a b c' d where l: "lbl = [a, b, c', d]" "toUpperCase a = CHR ''I''"
    "toUpperCase b = CHR ''S''" "toUpperCase c' = CHR ''I''" "toUpperCase d = CHR ''N''"
    by (rule label_chars)
  show ?thesis
    using s1 l by (simp add: labelled_isin_def toUpperCase_label)
qed

lemma method1_any_case:
  assumes "method1 t = Some x"
  shows "well_formed_any_case x"
proof -
  from assms obtain ms where ms: "search True (before labelled_isin @ isin_code) t = Some ms"
    "x = concat (drop (length (before labelled_isin)) ms)"
    by (auto simp: method1_def exec_def labelled_isin_def)
  from search_shape[OF ms(1)] obtain ms1 a b where "ms = ms1 @ [a, b]" "length ms1 = length (before labelled_isin)"
    "fits True (Times 2 (Class [(CHR ''A'', CHR ''Z'')])) a"
    "fits True (Times 10 (Class [(CHR ''A'', CHR ''Z''), (CHR ''0'', CHR ''9'')])) b"
    by (auto simp: list_all2_append1 isin_code_def list_all2_Cons1)
  with ms(2) show ?thesis
    by (simp add: well_formed_any_case_def accepts_letter accepts_alnum)
qed

section \<open>The extractor and the loop over the candidates\<close>

lemma visited_append: "visited (xs @ ys) = visited xs @ visited ys"
  by (induction xs rule: visited.induct) auto

lemma truthy_length: "length x = 12 \<Longrightarrow> truthy (Some x)"
  by auto

lemma attempt_fst:
  "fst (attempt k obs m cur) = (case obs of Throws e \<Rightarrow> fst cur | Returns x \<Rightarrow> m x)"
  by (simp add: attempt_def split: js.splits)

lemma attempt_trace:
  "trace (snd (attempt k obs m cur)) = trace (snd cur) @ [Evaluate k]"
  by (simp add: attempt_def emit_def split: js.splits)

lemma attempt_other:
  "results (snd (attempt k obs m cur)) = results (snd cur)"
  "files (snd (attempt k obs m cur)) = files (snd cur)"
  by (simp_all add: attempt_def emit_def split: js.splits)

lemma extract_length:
  assumes "fst (extractISINFromPage w u st) = Some x"
  shows "length x = 12"
proof (cases "goto w (visited (trace st) @ [u])")
  case (Throws e)
  with assms show ?thesis
    by (simp add: extractISINFromPage_def page_goto_def emit_def visited_append Let_def)
next
  case (Returns p)
  with assms show ?thesis
    by (auto simp: extractISINFromPage_def page_goto_def emit_def visited_append Let_def
        attempt_fst split: js.splits if_splits
        dest: method1_length method2_length method3_length)
qed

lemma extract_truthy:
  "truthy (fst (extractISINFromPage w u st)) \<longleftrightarrow> fst (extractISINFromPage w u st) \<noteq> None"
  by (cases "fst (extractISINFromPage w u st)") (auto dest: extract_length)

lemma extract_visited:
  "visited (trace (snd (extractISINFromPage w u st))) = visited (trace st) @ [u]"
  by (auto simp: extractISINFromPage_def page_goto_def emit_def visited_append Let_def
      attempt_trace split: js.splits prod.splits)

lemma extract_other:
  "results (snd (extractISINFromPage w u st)) = results st"
  "files (snd (extractISINFromPage w u st)) = files st"
  by (auto simp: extractISINFromPage_def page_goto_def emit_def Let_def
      attempt_other split: js.splits prod.splits)

lemma checkLinks_fixed:
  "companyName_r (snd (fst (checkLinks w c ls r st))) = companyName_r r \<and>
   expectedISIN (snd (fst (checkLinks w c ls r st))) = expectedISIN r \<and>
   error (snd (fst (checkLinks w c ls r st))) = error r"
  by (induction ls arbitrary: r st) (auto split: prod.splits)

lemma checkLinks_returned:
  assumes "fst (fst (checkLinks w c ls r st))"
  shows "status (snd (fst (checkLinks w c ls r st))) = ''matched'' \<and>
         foundISIN (snd (fst (checkLinks w c ls r st))) = Some (isinCode c) \<and>
         (\<exists>l \<in> set ls. matchingURL (snd (fst (checkLinks w c ls r st))) = Some (url l))"
  using assms by (induction ls arbitrary: r st) (auto split: prod.splits if_splits)

lemma checkLinks_fell_through:
  assumes "\<not> fst (fst (checkLinks w c ls r st))"
  shows "status (snd (fst (checkLinks w c ls r st))) = status r \<and>
         matchingURL (snd (fst (checkLinks w c ls r st))) = matchingURL r"
  using assms by (induction ls arbitrary: r st) (auto split: prod.splits if_splits)

lemma checkLinks_found:
  assumes "foundISIN (snd (fst (checkLinks w c ls r st))) = Some x"
  shows "foundISIN r = Some x \<or> Some x \<in> set (observations w ls st)"
  using assms
proof (induction ls arbitrary: r st)
  case Nil
  then show ?case by simp
next
  case (Cons l ls)
  obtain found st1 where e: "extractISINFromPage w (url l) st = (found, st1)"
    by (cases "extractISINFromPage w (url l) st")
  show ?case
  proof (cases "truthy found \<and> found \<noteq> Some (isinCode c)")
    case True
    with Cons.prems e
    have "foundISIN (snd (fst (checkLinks w c ls (r\<lparr>foundISIN := found\<rparr>) st1))) = Some x"
      by simp
    from Cons.IH[OF this] e show ?thesis by auto
  next
    case False
    show ?thesis
    proof (cases "truthy found")
      case True
      with False Cons.prems e show ?thesis by auto
    next
      case False
      with Cons.prems e
      have "foundISIN (snd (fst (checkLinks w c ls r st1))) = Some x" by simp
      from Cons.IH[OF this] e show ?thesis by auto
    qed
  qed
qed

lemma length_observations: "length (observations w ls st) = length ls"
  by (induction ls arbitrary: st) (auto split: prod.splits)

lemma foldl_last_truthy:
  "foldl (\<lambda>acc x. if truthy x then x else acc) a obs =
     (case rev (filter truthy obs) of [] \<Rightarrow> a | x # xs \<Rightarrow> x)"
  by (induction obs arbitrary: a) (auto split: list.splits)

lemma checkLinks_foundISIN:
  "foundISIN (snd (fst (checkLinks w c ls r st)))
     = foldl (\<lambda>acc x. if truthy x then x else acc) (foundISIN r) (observed w c ls st)"
  by (induction ls arbitrary: r st) (auto split: prod.splits)

lemma lastTruthy_in:
  assumes "lastTruthy obs = Some x"
  shows "Some x \<in> set obs"
proof -
  from assms obtain ys where "rev (filter truthy obs) = Some x # ys"
    by (auto simp: lastTruthy_def split: list.splits)
  then have "Some x \<in> set (rev (filter truthy obs))" by simp
  then show ?thesis by simp
qed

lemma checkLinks_no_match:
  assumes "Some (isinCode c) \<notin> set (observations w ls st)"
  shows "fst (checkLinks w c ls r st) =
           (False, r\<lparr>foundISIN := foldl (\<lambda>acc x. if truthy x then x else acc) (foundISIN r)
                                    (observations w ls st)\<rparr>)"
  using assms by (induction ls arbitrary: r st) (auto split: prod.splits)

lemma checkLinks_first_match:
  assumes "observations w (pre @ [l]) st = obs @ [Some (isinCode c)]"
    and "Some (isinCode c) \<notin> set obs"
  shows "fst (fst (checkLinks w c (pre @ l # post) r st)) \<and>
         matchingURL (snd (fst (checkLinks w c (pre @ l # post) r st))) = Some (url l) \<and>
         visited (trace (snd (checkLinks w c (pre @ l # post) r st)))
           = visited (trace st) @ map url (pre @ [l])"
  using assms
proof (induction pre arbitrary: r st obs)
  case Nil
  then have found: "fst (extractISINFromPage w (url l) st) = Some (isinCode c)"
    by (auto split: prod.splits)
  then have "truthy (Some (isinCode c))"
    by (auto dest: extract_length)
  with found show ?case
    using extract_visited[of w "url l" st] by (auto split: prod.splits)
next
  case (Cons a pre)
  obtain found st1 where e: "extractISINFromPage w (url a) st = (found, st1)"
    by (cases "extractISINFromPage w (url a) st")
  with Cons.prems obtain obs' where obs: "obs = found # obs'"
    "observations w (pre @ [l]) st1 = obs' @ [Some (isinCode c)]"
    using length_observations[of w "pre @ [l]" st1] by (cases obs) auto
  with Cons.prems have ne: "found \<noteq> Some (isinCode c)" "Some (isinCode c) \<notin> set obs'"
    by auto
  have v: "visited (trace st1) = visited (trace st) @ [url a]"
    using extract_visited[of w "url a" st] e by simp
  show ?case
    using Cons.IH[OF obs(2) ne(2)] e ne(1) v by simp
qed

section \<open>The ways in which one record ends\<close>

lemma searchCompany_throws:
  "fst (searchCompany w n st) = Throws e \<longleftrightarrow> encodeURIComponent w n = Throws e"
  by (auto simp: searchCompany_def page_goto_def Let_def split: js.splits prod.splits)

lemma searchCompany_throws_state:
  "encodeURIComponent w n = Throws e \<Longrightarrow> searchCompany w n st = (Throws e, st)"
  by (simp add: searchCompany_def)

lemma searchCompany_other:
  "results (snd (searchCompany w n st)) = results st"
  "files (snd (searchCompany w n st)) = files st"
  by (auto simp: searchCompany_def page_goto_def emit_def Let_def split: js.splits prod.splits)

lemma checkLinks_other:
  "results (snd (checkLinks w c ls r st)) = results st \<and>
   files (snd (checkLinks w c ls r st)) = files st"
proof (induction ls arbitrary: r st)
  case Nil
  then show ?case by simp
next
  case (Cons l ls)
  obtain found st1 where e: "extractISINFromPage w (url l) st = (found, st1)"
    by (cases "extractISINFromPage w (url l) st")
  then have "results st1 = results st" "files st1 = files st"
    using extract_other[of w "url l" st] by simp_all
  with e Cons.IH show ?case by simp
qed

text \<open>The three ways in which \<open>processCompany\<close> ends.\<close>

lemma processCompany_error:
  assumes "fst (searchCompany w (companyName c) st) = Throws e"
  shows "fst (processCompany w c st) =
           \<lparr>companyName_r = companyName c, expectedISIN = isinCode c, foundISIN = None,
            matchingURL = None, status = ''error'', error = Some e\<rparr>"
  using assms by (auto simp: processCompany_def Let_def split: js.splits prod.splits)

lemma processCompany_no_results:
  assumes "fst (searchCompany w (companyName c) st) = Returns []"
  shows "fst (processCompany w c st) =
           \<lparr>companyName_r = companyName c, expectedISIN = isinCode c, foundISIN = None,
            matchingURL = None, status = ''no_results'', error = None\<rparr>"
  using assms by (auto simp: processCompany_def Let_def split: js.splits prod.splits)

lemma processCompany_links:
  assumes "fst (searchCompany w (companyName c) st) = Returns ls" "ls \<noteq> []"
  shows "processCompany w c st =
           (case checkLinks w c ls
                   \<lparr>companyName_r = companyName c, expectedISIN = isinCode c, foundISIN = None,
                    matchingURL = None, status = ''not_found'', error = None\<rparr>
                   (snd (searchCompany w (companyName c) st)) of
              ((True, r1), st2) \<Rightarrow> (r1, st2)
            | ((False, r1), st2) \<Rightarrow> (r1\<lparr>status := ''no_match''\<rparr>, st2))"
  using assms by (auto simp: processCompany_def Let_def split: js.splits prod.splits)

lemma search_cases:
  obtains (failed) e where "fst (searchCompany w n st) = Throws e"
  | (empty) "fst (searchCompany w n st) = Returns []"
  | (links) ls where "fst (searchCompany w n st) = Returns ls" "ls \<noteq> []"
proof (cases "fst (searchCompany w n st)")
  case (Throws e)
  then show ?thesis by (rule failed)
next
  case (Returns ls)
  then show ?thesis by (cases ls) (auto intro: empty links)
qed

lemma processCompany_other:
  "results (snd (processCompany w c st)) = results st \<and>
   files (snd (processCompany w c st)) = files st"
proof -
  obtain x st1 where s: "searchCompany w (companyName c) st = (x, st1)"
    by (cases "searchCompany w (companyName c) st")
  then have st1: "results st1 = results st" "files st1 = files st"
    using searchCompany_other[of w "companyName c" st] by simp_all
  show ?thesis
  proof (cases x)
    case (Throws e)
    with s st1 show ?thesis by (simp add: processCompany_def)
  next
    case (Returns ls)
    let ?r = "\<lparr>companyName_r = companyName c, expectedISIN = isinCode c, foundISIN = None,
                matchingURL = None, status = ''not_found'', error = None\<rparr>"
    obtain b r1 st2 where k: "checkLinks w c ls ?r st1 = ((b, r1), st2)"
      by (cases "checkLinks w c ls ?r st1") auto
    then have "results st2 = results st1" "files st2 = files st1"
      using checkLinks_other[of w c ls ?r st1] by simp_all
    with s st1 Returns k show ?thesis
      by (cases b) (simp_all add: processCompany_def Let_def)
  qed
qed

section \<open>Claims about one record\<close>

text \<open>
  C10. A record that ends with status \<open>matched\<close> carries the expected identifier as
  its found identifier: the extraction is stored before the comparison that sets the
  status.
\<close>

theorem matched_found_is_expected:
  assumes "status (fst (processCompany w c st)) = ''matched''"
  shows "foundISIN (fst (processCompany w c st)) = Some (isinCode c) \<and>
         foundISIN (fst (processCompany w c st)) = Some (expectedISIN (fst (processCompany w c st)))"
proof (cases rule: search_cases[of w "companyName c" st])
  case (failed e)
  with assms show ?thesis by (simp add: processCompany_error)
next
  case empty
  with assms show ?thesis by (simp add: processCompany_no_results)
next
  case (links ls)
  let ?r = "\<lparr>companyName_r = companyName c, expectedISIN = isinCode c, foundISIN = None,
              matchingURL = None, status = ''not_found'', error = None\<rparr>"
  let ?k = "checkLinks w c ls ?r (snd (searchCompany w (companyName c) st))"
  obtain b r1 st2 where k: "?k = ((b, r1), st2)" by (cases ?k) auto
  show ?thesis
  proof (cases b)
    case True
    with k have "foundISIN r1 = Some (isinCode c)" "expectedISIN r1 = isinCode c"
      using checkLinks_returned[of w c ls ?r "snd (searchCompany w (companyName c) st)"]
        checkLinks_fixed[of w c ls ?r "snd (searchCompany w (companyName c) st)"]
      by simp_all
    with k True links show ?thesis by (simp add: processCompany_links)
  next
    case False
    with k links assms show ?thesis by (simp add: processCompany_links)
  qed
qed

theorem matched_found_is_expected_witness:
  "status (fst (processCompany web acme fresh)) = ''matched'' \<and>
   foundISIN (fst (processCompany web acme fresh)) = Some ''US0000011111''"
proof -
  have h: "status (fst (processCompany web acme fresh)) = ''matched''"
    by code_simp
  have c: "isinCode acme = ''US0000011111''"
    by (simp add: acme_def)
  show ?thesis
    using h matched_found_is_expected[OF h] c by simp
qed

text \<open>
  C5. When the third candidate's extraction equals the expected identifier and the first
  two do not (whatever else they return, or nothing), the record is \<open>matched\<close> with
  the third candidate's URL, and after the search exactly the first three candidates
  have been navigated to, in their order.
\<close>

theorem third_candidate_matched:
  assumes "fst (searchCompany w (companyName c) st) = Returns (l1 # l2 # l3 # others)"
    and "observations w [l1, l2, l3] (snd (searchCompany w (companyName c) st))
           = [o1, o2, Some (isinCode c)]"
    and "o1 \<noteq> Some (isinCode c)" and "o2 \<noteq> Some (isinCode c)"
  shows "status (fst (processCompany w c st)) = ''matched'' \<and>
         matchingURL (fst (processCompany w c st)) = Some (url l3) \<and>
         visited (trace (snd (processCompany w c st)))
           = visited (trace (snd (searchCompany w (companyName c) st))) @ [url l1, url l2, url l3]"
proof -
  let ?st1 = "snd (searchCompany w (companyName c) st)"
  let ?r = "\<lparr>companyName_r = companyName c, expectedISIN = isinCode c, foundISIN = None,
              matchingURL = None, status = ''not_found'', error = None\<rparr>"
  let ?k = "checkLinks w c (l1 # l2 # l3 # others) ?r ?st1"
  have obs: "observations w ([l1, l2] @ [l3]) ?st1 = [o1, o2] @ [Some (isinCode c)]"
    using assms(2) by simp
  have no: "Some (isinCode c) \<notin> set [o1, o2]"
    using assms(3,4) by auto
  from checkLinks_first_match[OF obs no, of others ?r]
  have k: "fst (fst ?k)" "matchingURL (snd (fst ?k)) = Some (url l3)"
    "visited (trace (snd ?k)) = visited (trace ?st1) @ [url l1, url l2, url l3]"
    by simp_all
  obtain r1 st2 where e: "?k = ((True, r1), st2)"
    using k(1) by (cases ?k) auto
  have "status r1 = ''matched''"
    using checkLinks_returned[of w c "l1 # l2 # l3 # others" ?r ?st1] e by simp
  with k e show ?thesis
    using processCompany_links[OF assms(1)] by simp
qed

theorem third_candidate_matched_witness:
  "observations web
     [\<lparr>url = ''https://www.gurufocus.com/stock/AAA/summary'', linkText = []\<rparr>,
      \<lparr>url = ''https://www.gurufocus.com/stock/BBB/summary'', linkText = []\<rparr>,
      \<lparr>url = ''https://www.gurufocus.com/stock/ACME/summary'', linkText = []\<rparr>]
     (snd (searchCompany web (companyName acme) fresh))
     = [Some ''GB0000022222'', None, Some (isinCode acme)] \<and>
   status (fst (processCompany web acme fresh)) = ''matched'' \<and>
   matchingURL (fst (processCompany web acme fresh))
     = Some ''https://www.gurufocus.com/stock/ACME/summary'' \<and>
   visited (trace (snd (processCompany web acme fresh)))
     = [''https://www.gurufocus.com/search?s=Acme'',
        ''https://www.gurufocus.com/stock/AAA/summary'',
        ''https://www.gurufocus.com/stock/BBB/summary'',
        ''https://www.gurufocus.com/stock/ACME/summary'']"
proof -
  let ?l = "\<lambda>u. \<lparr>url = u, linkText = []\<rparr>"
  have s: "fst (searchCompany web (companyName acme) fresh)
             = Returns (?l ''https://www.gurufocus.com/stock/AAA/summary''
                 # ?l ''https://www.gurufocus.com/stock/BBB/summary''
                 # ?l ''https://www.gurufocus.com/stock/ACME/summary''
                 # [?l ''https://www.gurufocus.com/stock/CCC/summary''])"
    by code_simp
  have obs: "observations web
               [?l ''https://www.gurufocus.com/stock/AAA/summary'',
                ?l ''https://www.gurufocus.com/stock/BBB/summary'',
                ?l ''https://www.gurufocus.com/stock/ACME/summary'']
               (snd (searchCompany web (companyName acme) fresh))
             = [Some ''GB0000022222'', None, Some (isinCode acme)]"
    by code_simp
  have o1: "Some ''GB0000022222'' \<noteq> Some (isinCode acme)" by code_simp
  have o2: "None \<noteq> Some (isinCode acme)" by simp
  have v: "visited (trace (snd (searchCompany web (companyName acme) fresh)))
             = [''https://www.gurufocus.com/search?s=Acme'']"
    by code_simp
  show ?thesis
    using third_candidate_matched[OF s obs o1 o2] obs v by simp
qed

text \<open>
  C7, as stated, fails for the empty candidate sequence: no extraction equals the
  expected identifier, and the status is \<open>no_results\<close>.
\<close>

theorem no_candidates_counterexample:
  "fst (searchCompany web (companyName gamma) fresh) = Returns [] \<and>
   Some (isinCode gamma)
     \<notin> set (observations web [] (snd (searchCompany web (companyName gamma) fresh))) \<and>
   status (fst (processCompany web gamma fresh)) = ''no_results'' \<and>
   status (fst (processCompany web gamma fresh)) \<noteq> ''no_match''"
  by code_simp

text \<open>
  C7, amended. For every non-empty candidate sequence in which no extraction equals the
  expected identifier, the status is \<open>no_match\<close>, the found identifier is the last
  non-empty extraction observed, or absent if there was none, and no URL is recorded.
\<close>

theorem no_match_keeps_last_extraction:
  assumes "fst (searchCompany w (companyName c) st) = Returns ls" and "ls \<noteq> []"
    and "Some (isinCode c) \<notin> set (observations w ls (snd (searchCompany w (companyName c) st)))"
  shows "status (fst (processCompany w c st)) = ''no_match'' \<and>
         foundISIN (fst (processCompany w c st))
           = lastTruthy (observations w ls (snd (searchCompany w (companyName c) st))) \<and>
         matchingURL (fst (processCompany w c st)) = None"
proof -
  let ?st1 = "snd (searchCompany w (companyName c) st)"
  let ?r = "\<lparr>companyName_r = companyName c, expectedISIN = isinCode c, foundISIN = None,
              matchingURL = None, status = ''not_found'', error = None\<rparr>"
  let ?k = "checkLinks w c ls ?r ?st1"
  have "fst ?k = (False, ?r\<lparr>foundISIN := lastTruthy (observations w ls ?st1)\<rparr>)"
    using checkLinks_no_match[OF assms(3), of ?r]
    by (simp add: foldl_last_truthy lastTruthy_def)
  then obtain st2 where
    "?k = ((False, ?r\<lparr>foundISIN := lastTruthy (observations w ls ?st1)\<rparr>), st2)"
    by (cases ?k) auto
  then show ?thesis
    using processCompany_links[OF assms(1,2)] by simp
qed

theorem no_match_keeps_last_extraction_witness:
  "Some (isinCode acme_wrong)
     \<notin> set (observations web
               [\<lparr>url = ''https://www.gurufocus.com/stock/AAA/summary'', linkText = []\<rparr>,
                \<lparr>url = ''https://www.gurufocus.com/stock/BBB/summary'', linkText = []\<rparr>,
                \<lparr>url = ''https://www.gurufocus.com/stock/ACME/summary'', linkText = []\<rparr>,
                \<lparr>url = ''https://www.gurufocus.com/stock/CCC/summary'', linkText = []\<rparr>]
               (snd (searchCompany web (companyName acme_wrong) fresh))) \<and>
   status (fst (processCompany web acme_wrong fresh)) = ''no_match'' \<and>
   foundISIN (fst (processCompany web acme_wrong fresh)) = Some ''US0000011111'' \<and>
   matchingURL (fst (processCompany web acme_wrong fresh)) = None"
proof -
  let ?ls = "[\<lparr>url = ''https://www.gurufocus.com/stock/AAA/summary'', linkText = []\<rparr>,
              \<lparr>url = ''https://www.gurufocus.com/stock/BBB/summary'', linkText = []\<rparr>,
              \<lparr>url = ''https://www.gurufocus.com/stock/ACME/summary'', linkText = []\<rparr>,
              \<lparr>url = ''https://www.gurufocus.com/stock/CCC/summary'', linkText = []\<rparr>]"
  have s: "fst (searchCompany web (companyName acme_wrong) fresh) = Returns ?ls"
    by code_simp
  have ne: "?ls \<noteq> []" by simp
  have obs: "observations web ?ls (snd (searchCompany web (companyName acme_wrong) fresh))
               = [Some ''GB0000022222'', None, Some ''US0000011111'', None]"
    by code_simp
  have no: "Some (isinCode acme_wrong)
              \<notin> set (observations web ?ls (snd (searchCompany web (companyName acme_wrong) fresh)))"
    unfolding obs by (simp add: acme_wrong_def)
  have l: "lastTruthy [Some ''GB0000022222'', None, Some ''US0000011111'', None]
             = Some ''US0000011111''"
    by code_simp
  show ?thesis
    using no_match_keeps_last_extraction[OF s ne no] no l unfolding obs by simp
qed

text \<open>
  C2, as stated, fails when the search page cannot be loaded: \<open>searchCompany\<close>
  catches the failure and returns no candidates, so the status is \<open>no_results\<close> and
  no error text is kept.
\<close>

theorem search_timeout_counterexample:
  "encodeURIComponent web (companyName beta) = Returns ''Beta'' \<and>
   goto web (visited (trace fresh) @ [''https://www.gurufocus.com/search?s=Beta''])
     = Throws ''Navigation timeout of 30000 ms exceeded'' \<and>
   status (fst (processCompany web beta fresh)) = ''no_results'' \<and>
   error (fst (processCompany web beta fresh)) = None"
  by code_simp

text \<open>
  C2, amended. A record ends with status \<open>error\<close> exactly when building the search
  URL fails, and then the failure's message is kept in \<open>error\<close>. A failure to load the
  search page, or to read its links, gives status \<open>no_results\<close> and no error text.
\<close>

theorem record_failures:
  "(status (fst (processCompany w c st)) = ''error''
      \<longleftrightarrow> (\<exists>e. encodeURIComponent w (companyName c) = Throws e)) \<and>
   (\<forall>e. encodeURIComponent w (companyName c) = Throws e
      \<longrightarrow> error (fst (processCompany w c st)) = Some e) \<and>
   (\<forall>q e. encodeURIComponent w (companyName c) = Returns q \<and>
           goto w (visited (trace st) @ [''https://www.gurufocus.com/search?s='' @ q]) = Throws e
      \<longrightarrow> status (fst (processCompany w c st)) = ''no_results'' \<and>
          error (fst (processCompany w c st)) = None) \<and>
   (\<forall>q p e. encodeURIComponent w (companyName c) = Returns q \<and>
           goto w (visited (trace st) @ [''https://www.gurufocus.com/search?s='' @ q]) = Returns p \<and>
           stockLinks p = Throws e
      \<longrightarrow> status (fst (processCompany w c st)) = ''no_results'' \<and>
          error (fst (processCompany w c st)) = None)"
proof -
  have a: "status (fst (processCompany w c st)) = ''error''
             \<longleftrightarrow> (\<exists>e. encodeURIComponent w (companyName c) = Throws e)"
  proof (cases rule: search_cases[of w "companyName c" st])
    case (failed e)
    then show ?thesis by (auto simp: processCompany_error searchCompany_throws)
  next
    case empty
    then have "\<not> (\<exists>e. encodeURIComponent w (companyName c) = Throws e)"
      using searchCompany_throws[of w "companyName c" st] by auto
    with empty show ?thesis by (simp add: processCompany_no_results)
  next
    case (links ls)
    then have enc: "\<not> (\<exists>e. encodeURIComponent w (companyName c) = Throws e)"
      using searchCompany_throws[of w "companyName c" st] by auto
    let ?r = "\<lparr>companyName_r = companyName c, expectedISIN = isinCode c, foundISIN = None,
                matchingURL = None, status = ''not_found'', error = None\<rparr>"
    let ?k = "checkLinks w c ls ?r (snd (searchCompany w (companyName c) st))"
    obtain b r1 st2 where k: "?k = ((b, r1), st2)" by (cases ?k) auto
    have "status (fst (processCompany w c st)) \<noteq> ''error''"
      using k links checkLinks_returned[of w c ls ?r "snd (searchCompany w (companyName c) st)"]
      by (cases b) (simp_all add: processCompany_links)
    with enc show ?thesis by simp
  qed
  have b: "error (fst (processCompany w c st)) = Some e"
    if "encodeURIComponent w (companyName c) = Throws e" for e
    using that by (simp add: processCompany_error searchCompany_throws)
  have s1: "fst (searchCompany w (companyName c) st) = Returns []"
    if "encodeURIComponent w (companyName c) = Returns q"
      "goto w (visited (trace st) @ [''https://www.gurufocus.com/search?s='' @ q]) = Throws e"
    for q e
    using that by (simp add: searchCompany_def page_goto_def emit_def visited_append Let_def)
  have s2: "fst (searchCompany w (companyName c) st) = Returns []"
    if "encodeURIComponent w (companyName c) = Returns q"
      "goto w (visited (trace st) @ [''https://www.gurufocus.com/search?s='' @ q]) = Returns p"
      "stockLinks p = Throws e"
    for q p e
    using that by (simp add: searchCompany_def page_goto_def emit_def visited_append Let_def)
  show ?thesis
    using a b s1 s2 by (auto simp: processCompany_no_results)
qed

theorem record_failures_witness:
  "encodeURIComponent web ''malformed'' = Throws ''URI malformed'' \<and>
   status (fst (processCompany web \<lparr>companyName = ''malformed'', isinCode = ''GB0000022222''\<rparr> fresh))
     = ''error'' \<and>
   error (fst (processCompany web \<lparr>companyName = ''malformed'', isinCode = ''GB0000022222''\<rparr> fresh))
     = Some ''URI malformed''"
proof -
  have h: "encodeURIComponent web ''malformed'' = Throws ''URI malformed''"
    by (simp add: web_def)
  show ?thesis
    using h record_failures[of web "\<lparr>companyName = ''malformed'', isinCode = ''GB0000022222''\<rparr>" fresh]
    by auto
qed

section \<open>Claims about the extractor\<close>


lemma well_formed_imp_any_case: "well_formed c \<Longrightarrow> well_formed_any_case c"
  by (auto simp: well_formed_def well_formed_any_case_def list_all_iff)



text \<open>
  What method 1 does extract: every code of two letters followed by ten letters or
  digits, in either case and as it is written, from a text that starts with the label
  \<open>ISIN\<close> in any case, optional white space, a colon and optional white space before
  the code. Every well-formed (upper-case) identifier is such a code, so the forms
  \<open>ISIN: <code>\<close> and \<open>isin:<code>\<close> of a well-formed identifier are extracted.
\<close>

lemma tier1_extracts_labelled:
  assumes "well_formed_any_case c" and "map toUpperCase lbl = ''ISIN''"
    and "list_all is_space ws1" and "list_all is_space ws2"
  shows "method1 (lbl @ ws1 @ '':'' @ ws2 @ c @ r) = Some c"
proof -
  from assms(2) have "length lbl = 4" by (auto elim: label_chars)
  then show ?thesis
    using search_hit[OF run_labelled[OF assms, of r]]
    by (simp add: method1_def exec_def labelled_isin_def)
qed

lemma tier1_extracts_labelled_examples:
  "well_formed ''US0000011111'' \<and>
   method1 ''ISIN: US0000011111'' = Some ''US0000011111'' \<and>
   method1 ''isin:US0000011111'' = Some ''US0000011111'' \<and>
   method1 ''Isin : us0000011111'' = Some ''us0000011111''"
proof -
  have wf: "well_formed ''US0000011111''" by code_simp
  have wf': "well_formed_any_case ''us0000011111''" by code_simp
  have l1: "map toUpperCase ''ISIN'' = ''ISIN''" by code_simp
  have l2: "map toUpperCase ''isin'' = ''ISIN''" by code_simp
  have l3: "map toUpperCase ''Isin'' = ''ISIN''" by code_simp
  have s0: "list_all is_space []" by simp
  have s1: "list_all is_space '' ''" by code_simp
  show ?thesis
    using wf
      tier1_extracts_labelled[OF well_formed_imp_any_case[OF wf] l1 s0 s1, of "[]"]
      tier1_extracts_labelled[OF well_formed_imp_any_case[OF wf] l2 s0 s0, of "[]"]
      tier1_extracts_labelled[OF wf' l3 s1 s1, of "[]"]
    by simp
qed

text \<open>
  C1. Tier 1 is to be case-insensitive on the label \<open>ISIN\<close> only: the code must be
  upper-case, and a lower-case code is not to be extracted by tier 1. The code does not
  meet this. Its pattern carries the \<open>i\<close> flag, which covers the character classes of
  the code as well, so method 1 returns the lower-case code of \<open>ISIN: us0000011111\<close>,
  which is not a well-formed identifier. Methods 2 and 3 use the same code pattern
  without the flag and find nothing in that text. On a page that names the identifier
  in lower case after the label and in upper case elsewhere, method 1 returns the
  lower-case code, methods 2 and 3 are never run, and the record ends as \<open>no_match\<close>
  under the case-sensitive comparison, although method 2 finds the expected identifier
  in the same text.
\<close>

theorem tier1_accepts_lower_case:
  "\<not> well_formed ''us0000011111'' \<and>
   method1 ''ISIN: us0000011111'' = Some ''us0000011111'' \<and>
   method2 ''ISIN: us0000011111'' = None \<and>
   method3 [''ISIN: us0000011111''] = None \<and>
   method1 ''isin: us0000011111 US0000011111'' = Some ''us0000011111'' \<and>
   method2 ''isin: us0000011111 US0000011111'' = Some ''US0000011111'' \<and>
   fst (extractISINFromPage lower_case_web ''https://www.gurufocus.com/stock/LOW/summary'' fresh)
     = Some ''us0000011111'' \<and>
   calls fresh
       (snd (extractISINFromPage lower_case_web ''https://www.gurufocus.com/stock/LOW/summary'' fresh))
     = [Goto ''https://www.gurufocus.com/stock/LOW/summary'', Evaluate 1] \<and>
   status (fst (processCompany lower_case_web acme fresh)) = ''no_match'' \<and>
   foundISIN (fst (processCompany lower_case_web acme fresh)) = Some ''us0000011111''"
  by code_simp

section \<open>Claims about the batch\<close>

lemma companiesLoop_processed:
  "i \<le> length cs \<Longrightarrow>
   companiesLoop w cs i (processed w cs i st) = processed w cs (length cs) st"
proof (induction "length cs - i" arbitrary: i)
  case 0
  then show ?case by simp
next
  case (Suc k)
  then have i: "i < length cs" by simp
  have "companiesLoop w cs i (processed w cs i st)
          = companiesLoop w cs (Suc i) (processed w cs (Suc i) st)"
    using i by (simp split: prod.splits)
  also have "\<dots> = processed w cs (length cs) st"
    using Suc i by (intro Suc.hyps(1)) simp_all
  finally show ?case .
qed

lemma processCompanies_processed:
  "processCompanies w companies m st
     = processed w (companiesToProcess companies m) (length (companiesToProcess companies m)) st"
  using companiesLoop_processed[of 0 "companiesToProcess companies m" w st]
  by (simp add: processCompanies_def)

lemma processed_results:
  "results (processed w cs n st)
     = results st @ map (\<lambda>i. fst (processCompany w (cs ! i) (processed w cs i st))) [0..<n]"
proof (induction n)
  case 0
  then show ?case by simp
next
  case (Suc n)
  obtain r st1 where p: "processCompany w (cs ! n) (processed w cs n st) = (r, st1)"
    by (cases "processCompany w (cs ! n) (processed w cs n st)")
  then have "results st1 = results (processed w cs n st)"
    using processCompany_other[of w "cs ! n" "processed w cs n st"] by simp
  with p Suc show ?case by (simp add: push_def)
qed

lemma processed_files: "files (processed w cs n st) = files st"
proof (induction n)
  case 0
  then show ?case by simp
next
  case (Suc n)
  obtain r st1 where p: "processCompany w (cs ! n) (processed w cs n st) = (r, st1)"
    by (cases "processCompany w (cs ! n) (processed w cs n st)")
  then have "files st1 = files (processed w cs n st)"
    using processCompany_other[of w "cs ! n" "processed w cs n st"] by simp
  with p Suc show ?case by (simp add: push_def)
qed

lemma processCompany_names:
  "companyName_r (fst (processCompany w c st)) = companyName c \<and>
   expectedISIN (fst (processCompany w c st)) = isinCode c"
proof (cases rule: search_cases[of w "companyName c" st])
  case (failed e)
  then show ?thesis by (simp add: processCompany_error)
next
  case empty
  then show ?thesis by (simp add: processCompany_no_results)
next
  case (links ls)
  let ?r = "\<lparr>companyName_r = companyName c, expectedISIN = isinCode c, foundISIN = None,
              matchingURL = None, status = ''not_found'', error = None\<rparr>"
  let ?k = "checkLinks w c ls ?r (snd (searchCompany w (companyName c) st))"
  obtain b r1 st2 where k: "?k = ((b, r1), st2)" by (cases ?k) auto
  then show ?thesis
    using checkLinks_fixed[of w c ls ?r "snd (searchCompany w (companyName c) st)"] links
    by (cases b) (simp_all add: processCompany_links)
qed

lemma processCompany_status:
  "terminal (status (fst (processCompany w c st))) \<and>
   (matchingURL (fst (processCompany w c st)) \<noteq> None
      \<longleftrightarrow> status (fst (processCompany w c st)) = ''matched'')"
proof (cases rule: search_cases[of w "companyName c" st])
  case (failed e)
  then show ?thesis by (simp add: processCompany_error terminal_def)
next
  case empty
  then show ?thesis by (simp add: processCompany_no_results terminal_def)
next
  case (links ls)
  let ?r = "\<lparr>companyName_r = companyName c, expectedISIN = isinCode c, foundISIN = None,
              matchingURL = None, status = ''not_found'', error = None\<rparr>"
  let ?k = "checkLinks w c ls ?r (snd (searchCompany w (companyName c) st))"
  obtain b r1 st2 where k: "?k = ((b, r1), st2)" by (cases ?k) auto
  show ?thesis
  proof (cases b)
    case True
    then show ?thesis
      using k links checkLinks_returned[of w c ls ?r "snd (searchCompany w (companyName c) st)"]
      by (auto simp: processCompany_links terminal_def)
  next
    case False
    then show ?thesis
      using k links checkLinks_fell_through[of w c ls ?r "snd (searchCompany w (companyName c) st)"]
      by (auto simp: processCompany_links terminal_def)
  qed
qed

lemma processCompany_found:
  assumes "foundISIN (fst (processCompany w c st)) = Some x"
  shows "\<exists>ls. fst (searchCompany w (companyName c) st) = Returns ls \<and>
              Some x \<in> set (observed w c ls (snd (searchCompany w (companyName c) st)))"
proof (cases rule: search_cases[of w "companyName c" st])
  case (failed e)
  with assms show ?thesis by (simp add: processCompany_error)
next
  case empty
  with assms show ?thesis by (simp add: processCompany_no_results)
next
  case (links ls)
  let ?r = "\<lparr>companyName_r = companyName c, expectedISIN = isinCode c, foundISIN = None,
              matchingURL = None, status = ''not_found'', error = None\<rparr>"
  let ?st1 = "snd (searchCompany w (companyName c) st)"
  let ?k = "checkLinks w c ls ?r ?st1"
  obtain b r1 st2 where k: "?k = ((b, r1), st2)" by (cases ?k) auto
  with assms links have "foundISIN (snd (fst ?k)) = Some x"
    by (cases b) (simp_all add: processCompany_links)
  then have "lastTruthy (observed w c ls ?st1) = Some x"
    by (simp add: checkLinks_foundISIN foldl_last_truthy lastTruthy_def)
  from lastTruthy_in[OF this] links show ?thesis by auto
qed

text \<open>
  C8. \<open>processCompanies\<close> appends exactly one record per input record that it
  processes, in input order. Each of them carries the input's name and identifier, has
  one of the four terminal statuses (never the initial \<open>not_found\<close>), has a matching
  URL exactly when its status is \<open>matched\<close>, and has a found identifier only if it is
  one of the extractions that the loop made and observed for that record.
\<close>

theorem one_record_per_input:
  assumes "cs = companiesToProcess companies m" and "st' = processCompanies w companies m st"
  shows "length (results st') = length (results st) + length cs \<and>
         take (length (results st)) (results st') = results st \<and>
         (\<forall>i < length cs.
            results st' ! (length (results st) + i)
              = fst (processCompany w (cs ! i) (processed w cs i st)) \<and>
            companyName_r (results st' ! (length (results st) + i)) = companyName (cs ! i) \<and>
            expectedISIN (results st' ! (length (results st) + i)) = isinCode (cs ! i) \<and>
            terminal (status (results st' ! (length (results st) + i))) \<and>
            status (results st' ! (length (results st) + i)) \<noteq> ''not_found'' \<and>
            (matchingURL (results st' ! (length (results st) + i)) \<noteq> None
               \<longleftrightarrow> status (results st' ! (length (results st) + i)) = ''matched'') \<and>
            (\<forall>x. foundISIN (results st' ! (length (results st) + i)) = Some x \<longrightarrow>
               (\<exists>ls. fst (searchCompany w (companyName (cs ! i)) (processed w cs i st)) = Returns ls \<and>
                  Some x \<in> set (observed w (cs ! i) ls
                    (snd (searchCompany w (companyName (cs ! i)) (processed w cs i st)))))))"
proof -
  have r: "results st' = results st
             @ map (\<lambda>i. fst (processCompany w (cs ! i) (processed w cs i st))) [0..<length cs]"
    using assms by (simp add: processCompanies_processed processed_results)
  have nth: "results st' ! (length (results st) + i)
               = fst (processCompany w (cs ! i) (processed w cs i st))"
    if "i < length cs" for i
    using that unfolding r by (simp add: nth_append)
  have nf: "status (fst (processCompany w c s)) \<noteq> ''not_found''" for c s
    using processCompany_status[of w c s] by (auto simp: terminal_def)
  show ?thesis
    using nth processCompany_names processCompany_status processCompany_found nf
    by (simp add: r)
qed

theorem one_record_per_input_witness:
  "length (results (processCompanies web batch Null fresh)) = 5 \<and>
   map companyName_r (results (processCompanies web batch Null fresh))
     = [''Acme'', ''Gamma'', ''malformed'', ''Acme'', ''Beta''] \<and>
   map status (results (processCompanies web batch Null fresh))
     = [''matched'', ''no_results'', ''error'', ''no_match'', ''no_results''] \<and>
   terminal (status (results (processCompanies web batch Null fresh) ! 3))"
proof -
  have cs: "batch = companiesToProcess batch Null"
    by (simp add: companiesToProcess_def)
  have l: "length batch = 5" "results fresh = []"
    by (simp_all add: batch_def fresh_def)
  have n: "map companyName_r (results (processCompanies web batch Null fresh))
             = [''Acme'', ''Gamma'', ''malformed'', ''Acme'', ''Beta'']"
    by code_simp
  have s: "map status (results (processCompanies web batch Null fresh))
             = [''matched'', ''no_results'', ''error'', ''no_match'', ''no_results'']"
    by code_simp
  from one_record_per_input[OF cs refl, of web fresh]
  have "length (results (processCompanies web batch Null fresh)) = 5"
    and "\<forall>i<5. terminal (status (results (processCompanies web batch Null fresh) ! i))"
    using l by auto
  then show ?thesis using n s by simp
qed

section \<open>Claims about the matches file\<close>

lemma split_no_sep: "sep \<notin> set x \<Longrightarrow> split sep x = [x]"
  by (induction x) auto

lemma split_append_sep: "sep \<notin> set x \<Longrightarrow> split sep (x @ sep # r) = x # split sep r"
  by (induction x) auto

lemma split_join:
  "xs \<noteq> [] \<Longrightarrow> \<forall>x \<in> set xs. sep \<notin> set x \<Longrightarrow> split sep (join [sep] xs) = xs"
proof (induction "[sep]" xs rule: join.induct)
  case 1
  then show ?case by simp
next
  case (2 x)
  then show ?case by (simp add: split_no_sep)
next
  case (3 x y ys)
  then show ?case by (simp add: split_append_sep)
qed

lemma join_empty:
  "\<forall>x \<in> set xs. x \<noteq> [] \<Longrightarrow> join sep xs = [] \<longleftrightarrow> xs = []"
  by (induction sep xs rule: join.induct) auto

lemma csvRow_nonempty: "csvRow r \<noteq> []"
  by (simp add: csvRow_def)

lemma csvResults_empty: "csvResults rs = [] \<longleftrightarrow> \<not> (\<exists>r \<in> set rs. status r = ''matched'')"
proof -
  have "csvResults rs = [] \<longleftrightarrow> filter (\<lambda>r. status r = ''matched'') rs = []"
    unfolding csvResults_def by (subst join_empty) (auto simp: csvRow_nonempty)
  then show ?thesis by (auto simp: filter_empty_conv)
qed

lemma header_line: "newline \<notin> set ''Company Name,ISIN Code,GuruFocus URL''"
  by (simp add: newline_def)

lemma split_dump:
  assumes "\<exists>r \<in> set rs. status r = ''matched''"
    and "\<forall>r \<in> set rs. status r = ''matched'' \<longrightarrow> newline \<notin> set (csvRow r)"
  shows "split newline (csvHeader @ csvResults rs)
           = ''Company Name,ISIN Code,GuruFocus URL'' # map csvRow (filter (\<lambda>r. status r = ''matched'') rs)"
proof -
  let ?rows = "map csvRow (filter (\<lambda>r. status r = ''matched'') rs)"
  have ne: "?rows \<noteq> []" using assms(1) by (auto simp: filter_empty_conv)
  have "split newline (csvResults rs) = ?rows"
    unfolding csvResults_def using ne assms(2) by (intro split_join) auto
  then show ?thesis
    using split_append_sep[OF header_line, of "csvResults rs"] by (simp add: csvHeader_def)
qed

lemma saveMatchesCSV_files:
  "files (snd (saveMatchesCSV w st))
     = (if (\<exists>r \<in> set (results st). status r = ''matched'') \<and> writeError w ''gurufocus_matches.csv'' = None
        then (files st)(''gurufocus_matches.csv'' \<mapsto> csvHeader @ csvResults (results st))
        else files st)"
  by (auto simp: saveMatchesCSV_def writeFileSync_def csvResults_empty split: option.splits)

lemma saveMatchesCSV_results: "results (snd (saveMatchesCSV w st)) = results st"
  by (auto simp: saveMatchesCSV_def writeFileSync_def split: option.splits)

text \<open>
  C3, as stated, fails twice: a value that contains a comma is written as it is, without
  quotes, and when no record is matched no file is written, not even the header row.
\<close>

theorem unquoted_comma_counterexample:
  "files (snd (saveMatchesCSV web (fresh\<lparr>results := comma_results\<rparr>))) ''gurufocus_matches.csv''
     = Some (''Company Name,ISIN Code,GuruFocus URL'' @ [newline] @
             ''Acme,US0000011111,https://www.gurufocus.com/stock/A,B/summary'') \<and>
   files (snd (saveMatchesCSV web (fresh\<lparr>results := unmatched_results\<rparr>))) ''gurufocus_matches.csv''
     = None"
  by code_simp

text \<open>
  C3, amended. When at least one record is matched and the file can be written, the
  lines of the matches file are the header row followed by exactly one row per matched
  record, in the order of the result set, and no row for any other record (given that
  no row contains a line break). A row is the company name, the expected identifier and
  the matching URL joined by commas, each value as it is. When no record is matched,
  \<open>saveMatchesCSV\<close> writes nothing. The matches part of \<open>saveResults\<close> in
  \<open>gurufocus_isin_matcher.js\<close> leaves the same file, once the structured dump has
  been written.
\<close>

theorem matches_dump:
  "((\<exists>r \<in> set (results st). status r = ''matched'') \<and>
    writeError w ''gurufocus_matches.csv'' = None \<and>
    (\<forall>r \<in> set (results st). status r = ''matched'' \<longrightarrow> newline \<notin> set (csvRow r))
    \<longrightarrow> (\<exists>content. files (snd (saveMatchesCSV w st)) ''gurufocus_matches.csv'' = Some content \<and>
           split newline content
             = ''Company Name,ISIN Code,GuruFocus URL''
               # map csvRow (filter (\<lambda>r. status r = ''matched'') (results st)))) \<and>
   (\<not> (\<exists>r \<in> set (results st). status r = ''matched'') \<longrightarrow> saveMatchesCSV w st = (False, st)) \<and>
   (\<forall>r u. matchingURL r = Some u
      \<longrightarrow> csvRow r = companyName_r r @ '','' @ expectedISIN r @ '','' @ u) \<and>
   (\<forall>filename. writeError w filename = None \<and> filename \<noteq> ''gurufocus_matches.csv''
      \<longrightarrow> files (saveResults w filename st) ''gurufocus_matches.csv''
            = files (snd (saveMatchesCSV w st)) ''gurufocus_matches.csv'')"
proof -
  have a: "\<exists>content. files (snd (saveMatchesCSV w st)) ''gurufocus_matches.csv'' = Some content \<and>
           split newline content
             = ''Company Name,ISIN Code,GuruFocus URL''
               # map csvRow (filter (\<lambda>r. status r = ''matched'') (results st))"
    if "\<exists>r \<in> set (results st). status r = ''matched''"
      "writeError w ''gurufocus_matches.csv'' = None"
      "\<forall>r \<in> set (results st). status r = ''matched'' \<longrightarrow> newline \<notin> set (csvRow r)"
    using that split_dump[OF that(1,3)] by (simp add: saveMatchesCSV_files)
  have b: "saveMatchesCSV w st = (False, st)"
    if "\<not> (\<exists>r \<in> set (results st). status r = ''matched'')"
    using that csvResults_empty[of "results st"] by (simp add: saveMatchesCSV_def)
  have c: "csvRow r = companyName_r r @ '','' @ expectedISIN r @ '','' @ u"
    if "matchingURL r = Some u" for r u
    using that by (simp add: csvRow_def)
  have d: "files (saveResults w filename st) ''gurufocus_matches.csv''
            = files (snd (saveMatchesCSV w st)) ''gurufocus_matches.csv''"
    if "writeError w filename = None" "filename \<noteq> ''gurufocus_matches.csv''" for filename
    using that
    by (auto simp: saveResults_def saveMatchesCSV_def writeFileSync_def split: option.splits)
  show ?thesis
    using a b c d by blast
qed

theorem matches_dump_witness:
  "(\<exists>content. files (snd (saveMatchesCSV web (fresh\<lparr>results := comma_results\<rparr>)))
                 ''gurufocus_matches.csv'' = Some content \<and>
      split newline content
        = [''Company Name,ISIN Code,GuruFocus URL'',
           ''Acme,US0000011111,https://www.gurufocus.com/stock/A,B/summary'']) \<and>
   saveMatchesCSV web (fresh\<lparr>results := unmatched_results\<rparr>)
     = (False, fresh\<lparr>results := unmatched_results\<rparr>)"
proof -
  let ?st = "fresh\<lparr>results := comma_results\<rparr>"
  have h1: "\<exists>r \<in> set (results ?st). status r = ''matched''"
    by (simp add: comma_results_def)
  have h2: "writeError web ''gurufocus_matches.csv'' = None"
    by (simp add: web_def)
  have h3: "\<forall>r \<in> set (results ?st). status r = ''matched'' \<longrightarrow> newline \<notin> set (csvRow r)"
    by (simp add: comma_results_def csvRow_def newline_def)
  have rows: "map csvRow (filter (\<lambda>r. status r = ''matched'') (results ?st))
                = [''Acme,US0000011111,https://www.gurufocus.com/stock/A,B/summary'']"
    by (simp add: comma_results_def csvRow_def)
  have h4: "\<not> (\<exists>r \<in> set (results (fresh\<lparr>results := unmatched_results\<rparr>)). status r = ''matched'')"
    by (simp add: unmatched_results_def)
  show ?thesis
    using matches_dump[of ?st web] matches_dump[of "fresh\<lparr>results := unmatched_results\<rparr>" web]
      h1 h2 h3 h4 rows
    by auto
qed

section \<open>Claims about saving every ten records\<close>

lemma loop_passes:
  "i \<le> length cs \<Longrightarrow> completed w cs i st = Some s
     \<Longrightarrow> companiesLoop_periodic w cs 0 st = companiesLoop_periodic w cs i s"
proof (induction i arbitrary: s)
  case 0
  then show ?case by simp
next
  case (Suc i)
  from Suc.prems(2) obtain s0 where s0: "completed w cs i st = Some s0"
    and it: "iteration w cs i s0 = (Returns (), s)"
    by (auto split: option.splits prod.splits js.splits)
  have "companiesLoop_periodic w cs 0 st = companiesLoop_periodic w cs i s0"
    using Suc.IH[OF _ s0] Suc.prems(1) by simp
  also have "\<dots> = companiesLoop_periodic w cs (Suc i) s"
    using Suc.prems(1) it by (subst companiesLoop_periodic.simps) simp
  finally show ?case .
qed

lemma loop_completes:
  "completed w cs (length cs) st = Some s \<Longrightarrow> companiesLoop_periodic w cs 0 st = (Returns (), s)"
  using loop_passes[of "length cs" cs w st s] by simp

lemma iteration_files:
  assumes "iteration w cs i st = (Returns u, st')"
  shows "results st' = results st @ [fst (processCompany w (cs ! i) st)] \<and>
         files st' =
           (if (i + 1) mod 10 = 0 \<and> (\<exists>r \<in> set (results st'). status r = ''matched'') \<and>
               writeError w ''gurufocus_matches.csv'' = None
            then (files st)(''gurufocus_matches.csv'' \<mapsto> csvHeader @ csvResults (results st'))
            else files st)"
proof -
  obtain r st1 where p: "processCompany w (cs ! i) st = (r, st1)"
    by (cases "processCompany w (cs ! i) st")
  then have o: "results st1 = results st" "files st1 = files st"
    using processCompany_other[of w "cs ! i" st] by simp_all
  from assms p have st': "st' = (if (i + 1) mod 10 = 0 then snd (saveMatchesCSV w (push r st1))
                                 else push r st1)"
    by (auto simp: iteration_def split: js.splits if_splits)
  have pr: "results (push r st1) = results st @ [r]" "files (push r st1) = files st"
    using o by (simp_all add: push_def)
  show ?thesis
  proof (cases "(i + 1) mod 10 = 0")
    case True
    with st' have "st' = snd (saveMatchesCSV w (push r st1))" by simp
    then show ?thesis
      using True pr p saveMatchesCSV_files[of w "push r st1"] saveMatchesCSV_results[of w "push r st1"]
      by simp
  next
    case False
    with st' pr p show ?thesis by simp
  qed
qed

text \<open>
  The variant with periodic saving keeps the same record invariant for the records it
  completes.
\<close>

lemma completed_results:
  "completed w cs n st = Some st' \<Longrightarrow>
   length (results st') = length (results st) + n \<and>
   take (length (results st)) (results st') = results st \<and>
   (\<forall>r \<in> set (drop (length (results st)) (results st')).
      terminal (status r) \<and> (matchingURL r \<noteq> None \<longleftrightarrow> status r = ''matched''))"
proof (induction n arbitrary: st')
  case 0
  then show ?case by simp
next
  case (Suc n)
  from Suc.prems obtain prev u where prev: "completed w cs n st = Some prev"
    and it: "iteration w cs n prev = (Returns u, st')"
    by (auto split: option.splits prod.splits js.splits)
  have r: "results st' = results prev @ [fst (processCompany w (cs ! n) prev)]"
    using iteration_files[OF it] by simp
  from Suc.IH[OF prev] have l: "length (results st) \<le> length (results prev)" by simp
  show ?case
    using Suc.IH[OF prev] processCompany_status[of w "cs ! n" prev] l
    by (auto simp: r)
qed

lemma processCompanies_files: "files (processCompanies w companies m st) = files st"
  by (simp add: processCompanies_processed processed_files)

text \<open>
  C4, as stated, fails twice. In the variant with periodic saving, ten completed records
  without a match leave the matches file of an earlier run as it was. In
  \<open>gurufocus_isin_matcher.js\<close>, \<open>processCompanies\<close> writes no file at all, even with
  a match among its first ten records.
\<close>

theorem no_match_no_write_counterexample:
  "\<not> Option.is_none (completed web ten_unmatched 10 stale) \<and>
   map status (results (the (completed web ten_unmatched 10 stale))) = replicate 10 ''no_results'' \<and>
   files (the (completed web ten_unmatched 10 stale)) ''gurufocus_matches.csv''
     = Some (''Company Name,ISIN Code,GuruFocus URL'' @ [newline] @ ''Old,US0000000000,u'') \<and>
   map status (results (processCompanies web ten_with_match Null fresh))
     = replicate 9 ''no_results'' @ [''matched''] \<and>
   files (processCompanies web ten_with_match Null fresh) ''gurufocus_matches.csv'' = None"
  by code_simp

text \<open>
  C4, amended. In the variant with periodic saving, right after the \<open>10 * k\<close>-th
  record has completed (\<open>k \<ge> 1\<close>), the matches file has been overwritten as a whole
  with the header row and the rows of the records matched so far, provided at least one
  record is matched so far and the file can be written; otherwise the files are as they
  were before that record. The run continues from that state.
\<close>

theorem periodic_dump:
  assumes "completed w cs (10 * k) st = Some st'" and "0 < k" and "10 * k \<le> length cs"
  shows "\<exists>prev. completed w cs (10 * k - 1) st = Some prev \<and>
           companiesLoop_periodic w cs 0 st = companiesLoop_periodic w cs (10 * k) st' \<and>
           files st' =
             (if (\<exists>r \<in> set (results st'). status r = ''matched'') \<and>
                 writeError w ''gurufocus_matches.csv'' = None
              then (files prev)(''gurufocus_matches.csv'' \<mapsto>
                     csvHeader @ join [newline]
                       (map csvRow (filter (\<lambda>r. status r = ''matched'') (results st'))))
              else files prev)"
proof -
  from assms(2) obtain n where n: "10 * k = Suc n" by (cases "10 * k") auto
  with assms(1) obtain prev u where prev: "completed w cs n st = Some prev"
    and it: "iteration w cs n prev = (Returns u, st')"
    by (auto split: option.splits prod.splits js.splits)
  have m: "(n + 1) mod 10 = 0" using n by presburger
  have "files st' =
          (if (\<exists>r \<in> set (results st'). status r = ''matched'') \<and>
              writeError w ''gurufocus_matches.csv'' = None
           then (files prev)(''gurufocus_matches.csv'' \<mapsto> csvHeader @ csvResults (results st'))
           else files prev)"
    using iteration_files[OF it] m by simp
  moreover have "companiesLoop_periodic w cs 0 st = companiesLoop_periodic w cs (10 * k) st'"
    using loop_passes[OF assms(3,1)] .
  ultimately show ?thesis
    using prev n by (simp add: csvResults_def)
qed

theorem periodic_dump_witness:
  "\<exists>prev st'. completed web ten_with_match 9 fresh = Some prev \<and>
     completed web ten_with_match 10 fresh = Some st' \<and>
     files st' = (files prev)(''gurufocus_matches.csv'' \<mapsto>
       csvHeader @ ''Acme,US0000011111,https://www.gurufocus.com/stock/ACME/summary'')"
proof -
  have "\<not> Option.is_none (completed web ten_with_match 10 fresh)"
    by code_simp
  then obtain st' where s: "completed web ten_with_match (10 * 1) fresh = Some st'"
    by (auto simp: Option.is_none_def)
  have "map status (results (the (completed web ten_with_match 10 fresh)))
          = replicate 9 ''no_results'' @ [''matched''] \<and>
        map csvRow (filter (\<lambda>r. status r = ''matched'')
            (results (the (completed web ten_with_match 10 fresh))))
          = [''Acme,US0000011111,https://www.gurufocus.com/stock/ACME/summary'']"
    by code_simp
  with s have rows: "\<exists>r \<in> set (results st'). status r = ''matched''"
    "map csvRow (filter (\<lambda>r. status r = ''matched'') (results st'))
       = [''Acme,US0000011111,https://www.gurufocus.com/stock/ACME/summary'']"
    by (auto simp: map_eq_append_conv)
  have k: "0 < (1::nat)" by simp
  have l: "10 * 1 \<le> length ten_with_match" by (simp add: ten_with_match_def)
  have w: "writeError web ''gurufocus_matches.csv'' = None" by (simp add: web_def)
  from periodic_dump[OF s k l] rows w s show ?thesis by auto
qed

section \<open>Claim about the command line\<close>

text \<open>
  \<open>parseInt\<close> returns doubles: \<open>2 ^ 53 + 1\<close> is read as \<open>2 ^ 53\<close>, and 401
  digits are read as infinity.
\<close>

lemma parseInt_doubles:
  "parseInt ''9007199254740993'' = Number 9007199254740992 \<and>
   parseInt ''9007199254740995'' = Number 9007199254740996 \<and>
   parseInt ''  -0x1F rest'' = Number (- 31) \<and>
   parseInt ''-0'' = Number 0 \<and>
   parseInt ''0x'' = NaN \<and>
   parseInt (replicate 401 CHR ''9'') = PosInfinity"
  by code_simp

text \<open>
  C9. Without the record-count argument the script prints the usage text and exits with
  code 1. With the argument \<open>0\<close> it does the same, in both variants of the script: the
  test \<open>!maxCompanies\<close> comes first, so the branch that would turn \<open>0\<close> into
  ``process all'' (\<open>run(null)\<close>) is never reached, although the usage text itself
  announces it.
\<close>

theorem zero_prints_usage:
  "cli [''node'', ''/app/gurufocus_isin_matcher.js''] = Exit usage 1 \<and>
   cli [''node'', ''/app/gurufocus_isin_matcher.js'', ''0''] = Exit usage 1 \<and>
   cli [''node'', ''/app/gurufocus_isin_matcher.js'', ''0'', ''--visible''] = Exit usage 1 \<and>
   cli [''node'', ''/app/gurufocus_isin_matcher.js'', ''5''] = Run (Number 5) True \<and>
   (\<forall>argv h. cli argv \<noteq> Run Null h)"
proof -
  have "cli argv \<noteq> Run Null h" for argv h
    by (auto simp: cli_def Let_def)
  moreover have "cli [''node'', ''/app/gurufocus_isin_matcher.js''] = Exit usage 1"
    by code_simp
  moreover have "cli [''node'', ''/app/gurufocus_isin_matcher.js'', ''0''] = Exit usage 1"
    by code_simp
  moreover have "cli [''node'', ''/app/gurufocus_isin_matcher.js'', ''0'', ''--visible''] = Exit usage 1"
    by code_simp
  moreover have "cli [''node'', ''/app/gurufocus_isin_matcher.js'', ''5''] = Run (Number 5) True"
    by code_simp
  ultimately show ?thesis by blast
qed

end
